theory Spec2Isabelle
  imports Complex_Main "HOL-Library.Multiset" "HOL-Library.Sublist"
begin

section \<open>Data model\<close>

text \<open>
  A blob is one row of the \<open>(N, 5)\<close> array that every stage of
  \<^verbatim>\<open>blob_detection_functions.py\<close> consumes and returns: columns
  \<open>z, y, x, sigma, intensity\<close>.  The array is a float array, so every column is a
  number of the same kind; finite floats are idealised as reals.
\<close>

record blob =
  blob_z :: real
  blob_y :: real
  blob_x :: real
  blob_sigma :: real
  blob_intensity :: real

text \<open>
  A dense 3D array (\<^verbatim>\<open>image\<close>, \<^verbatim>\<open>original_mask\<close>): its shape and its entries.
  Entries are read only at indices inside the shape.
\<close>

record 'a array3 =
  shape0 :: nat
  shape1 :: nat
  shape2 :: nat
  voxel :: "nat \<Rightarrow> nat \<Rightarrow> nat \<Rightarrow> 'a"

text \<open>The exceptions the modelled code can raise.\<close>

datatype error = ValueError | IndexError

text \<open>
  A float64 result that need not be finite: NumPy's scalar division by zero and the mean
  of an empty slice do not raise, they return \<open>inf\<close>, \<open>-inf\<close> or \<open>nan\<close>.
\<close>

datatype npfloat = Finite real | PlusInf | MinusInf | NaN

fun is_finite :: "npfloat \<Rightarrow> bool" where
  "is_finite (Finite v) = True"
| "is_finite _ = False"

text \<open>\<^verbatim>\<open>a / b\<close> on NumPy scalars with finite operands.\<close>

definition np_div :: "real \<Rightarrow> real \<Rightarrow> npfloat" where
  "np_div a b =
     (if b \<noteq> 0 then Finite (a / b)
      else if 0 < a then PlusInf
      else if a < 0 then MinusInf
      else NaN)"

text \<open>\<^verbatim>\<open>np.round(v).astype(int)\<close>: round to nearest, halves to the even neighbour.\<close>

definition np_round :: "real \<Rightarrow> int" where
  "np_round v =
     (let f = \<lfloor>v\<rfloor>; d = v - of_int f
      in if d < 1 / 2 then f
         else if 1 / 2 < d then f + 1
         else if even f then f else f + 1)"

text \<open>\<^verbatim>\<open>int(v)\<close> on a float: truncation towards zero.\<close>

definition py_int :: "real \<Rightarrow> int" where
  "py_int v = (if 0 \<le> v then \<lfloor>v\<rfloor> else \<lceil>v\<rceil>)"

text \<open>
  The indices selected by the slice \<^verbatim>\<open>a:b\<close> on an axis of length \<open>n\<close>: negative
  bounds count from the end, and both bounds are clipped to the axis.
\<close>

definition py_slice :: "nat \<Rightarrow> int \<Rightarrow> int \<Rightarrow> nat list" where
  "py_slice n a b =
     (let lo = (if a < 0 then max (a + int n) 0 else min a (int n));
          hi = (if b < 0 then max (b + int n) 0 else min b (int n))
      in [nat lo ..< nat hi])"

text \<open>\<^verbatim>\<open>image[z, ys, xs]\<close> for index lists \<open>ys\<close>, \<open>xs\<close>, flattened row by row.\<close>

definition region_values :: "real array3 \<Rightarrow> nat \<Rightarrow> nat list \<Rightarrow> nat list \<Rightarrow> real list" where
  "region_values img z ys xs = concat (map (\<lambda>y. map (\<lambda>x. voxel img z y x) xs) ys)"

definition cube_values :: "real array3 \<Rightarrow> nat list \<Rightarrow> nat list \<Rightarrow> nat list \<Rightarrow> real list" where
  "cube_values img zs ys xs = concat (map (\<lambda>z. region_values img z ys xs) zs)"

text \<open>\<^verbatim>\<open>.mean()\<close> of a non-empty selection.\<close>

definition np_mean :: "real list \<Rightarrow> real" where
  "np_mean vs = sum_list vs / real (length vs)"

text \<open>All entries of an array in row-major order (what a reduction over the whole array sees).\<close>

definition flatten :: "real array3 \<Rightarrow> real list" where
  "flatten img =
     cube_values img [0 ..< shape0 img] [0 ..< shape1 img] [0 ..< shape2 img]"

text \<open>
  \<^verbatim>\<open>np.argsort\<close> is a library routine.  It is taken as a parameter \<open>argsort\<close> of
  the stages that call it.  What the library promises for the default
  \<^verbatim>\<open>kind='quicksort'\<close> is that the returned indices are a permutation of
  \<open>0..<n\<close> which puts the keys in non-decreasing order; the order of equal keys is not
  promised.
\<close>

definition np_argsort_spec :: "(real list \<Rightarrow> nat list) \<Rightarrow> bool" where
  "np_argsort_spec argsort \<longleftrightarrow>
     (\<forall>keys. mset (argsort keys) = mset [0..<length keys] \<and>
             sorted (map (\<lambda>i. keys ! i) (argsort keys)))"

text \<open>Boolean-mask indexing \<^verbatim>\<open>blobs_sorted[keep_mask]\<close>.\<close>

definition select_mask :: "'a list \<Rightarrow> bool list \<Rightarrow> 'a list" where
  "select_mask xs keep_mask = map fst (filter snd (zip xs keep_mask))"

section \<open>ProximitySuppressor\<close>

text \<open>The test of lines 73--75: inside the Z window and inside the XY radius.\<close>

definition within_cylinder :: "real \<Rightarrow> real \<Rightarrow> blob \<Rightarrow> blob \<Rightarrow> bool" where
  "within_cylinder radius_xy z_window b0 b1 \<longleftrightarrow>
     \<bar>blob_z b1 - blob_z b0\<bar> \<le> z_window \<and>
     (blob_y b1 - blob_y b0)\<^sup>2 + (blob_x b1 - blob_x b0)\<^sup>2 \<le> radius_xy\<^sup>2"

text \<open>The body of the inner loop, for one \<open>j\<close>.\<close>

definition close_step :: "real \<Rightarrow> real \<Rightarrow> blob list \<Rightarrow> nat \<Rightarrow> nat \<Rightarrow> bool list \<Rightarrow> bool list" where
  "close_step radius_xy z_window blobs_sorted i j keep_mask =
     (if \<not> keep_mask ! j then keep_mask
      else if within_cylinder radius_xy z_window (blobs_sorted ! i) (blobs_sorted ! j)
           then keep_mask[j := False]
           else keep_mask)"

text \<open>The inner loop \<^verbatim>\<open>for j in range(i + 1, len(blobs_sorted))\<close>.\<close>

definition close_inner :: "real \<Rightarrow> real \<Rightarrow> blob list \<Rightarrow> nat \<Rightarrow> bool list \<Rightarrow> bool list" where
  "close_inner radius_xy z_window blobs_sorted i keep_mask =
     fold (close_step radius_xy z_window blobs_sorted i)
          [Suc i ..< length blobs_sorted] keep_mask"

text \<open>The outer loop \<^verbatim>\<open>for i, blob in enumerate(blobs_sorted)\<close>.\<close>

definition close_outer :: "real \<Rightarrow> real \<Rightarrow> blob list \<Rightarrow> nat list \<Rightarrow> bool list \<Rightarrow> bool list" where
  "close_outer radius_xy z_window blobs_sorted is keep_mask =
     fold (\<lambda>i km. if \<not> km ! i then km else close_inner radius_xy z_window blobs_sorted i km)
          is keep_mask"

text \<open>
  Lines 56--57 (and 209--210): \<^verbatim>\<open>blobs[np.argsort(-blobs[:, 4])]\<close>.  Under
  \<open>np_argsort_spec\<close> every index is in range, so the lookup never fails.
\<close>

definition sort_by_intensity :: "(real list \<Rightarrow> nat list) \<Rightarrow> blob list \<Rightarrow> blob list" where
  "sort_by_intensity argsort blobs =
     (let sorted_indices = argsort (map (\<lambda>b. - blob_intensity b) blobs)
      in map (\<lambda>i. blobs ! i) sorted_indices)"

definition suppress_close_blobs_by_intensity ::
  "(real list \<Rightarrow> nat list) \<Rightarrow> blob list \<Rightarrow> real \<Rightarrow> real \<Rightarrow> blob list" where
  "suppress_close_blobs_by_intensity argsort blobs radius_xy z_window =
     (if length blobs = 0 then blobs
      else
        let blobs_sorted = sort_by_intensity argsort blobs;
            keep_mask = close_outer radius_xy z_window blobs_sorted
                          [0 ..< length blobs_sorted]
                          (replicate (length blobs_sorted) True)
        in select_mask blobs_sorted keep_mask)"

text \<open>
  A concrete index sort that meets \<open>np_argsort_spec\<close>, for the sample runs: it keeps
  equal keys in input order.
\<close>

definition argsort_stable :: "real list \<Rightarrow> nat list" where
  "argsort_stable keys = sort_key (\<lambda>i. keys ! i) [0..<length keys]"

text \<open>
  Loop invariant of the outer loop once indices below \<open>m\<close> are done: no kept index
  below \<open>m\<close> has a kept later index inside its cylinder.
\<close>

definition no_close_pair_upto :: "real \<Rightarrow> real \<Rightarrow> blob list \<Rightarrow> nat \<Rightarrow> bool list \<Rightarrow> bool" where
  "no_close_pair_upto r zw bs m km \<longleftrightarrow>
     (\<forall>i k. i < m \<and> i < k \<and> k < length bs \<and> km ! i \<and> km ! k \<longrightarrow>
            \<not> within_cylinder r zw (bs ! i) (bs ! k))"

text \<open>Sample inputs.\<close>

definition mk_blob :: "real \<Rightarrow> real \<Rightarrow> real \<Rightarrow> real \<Rightarrow> real \<Rightarrow> blob" where
  "mk_blob z y x s v =
     \<lparr>blob_z = z, blob_y = y, blob_x = x, blob_sigma = s, blob_intensity = v\<rparr>"

definition ex_blobs :: "blob list" where
  "ex_blobs = [mk_blob 5 50 50 2 150, mk_blob 5 53 50 2 200, mk_blob 5 100 100 2 100]"

section \<open>Detector: threshold resolution and intensity measurement\<close>

text \<open>
  \<^verbatim>\<open>np.percentile(a, q)\<close> with the default linear interpolation, on a non-empty
  array and \<open>0 \<le> q \<le> 100\<close> (outside that range the library raises
  \<^verbatim>\<open>ValueError\<close>, which \<open>detect_blobs_threshold\<close> tests first).
\<close>

definition percentile_linear :: "real list \<Rightarrow> real \<Rightarrow> real" where
  "percentile_linear a q =
     (let s = sort a;
          h = q / 100 * real (length s - 1);
          lo = nat \<lfloor>h\<rfloor>;
          hi = min (lo + 1) (length s - 1)
      in s ! lo + (h - real lo) * (s ! hi - s ! lo))"

text \<open>\<^verbatim>\<open>image.max()\<close> of a non-empty array.\<close>

definition np_amax :: "real list \<Rightarrow> real" where
  "np_amax vs = fold max (tl vs) (hd vs)"

text \<open>
  Lines 10--22 of \<^verbatim>\<open>detect_blobs\<close>: the threshold handed to the peak detector.
  On an empty array \<^verbatim>\<open>np.percentile\<close> raises \<^verbatim>\<open>IndexError\<close> (line 12, after
  its own range check of the percentile) and \<^verbatim>\<open>image.max()\<close> raises
  \<^verbatim>\<open>ValueError\<close> (line 18); the division itself never raises.
\<close>

definition detect_blobs_threshold :: "real array3 \<Rightarrow> string \<Rightarrow> real \<Rightarrow> error + npfloat" where
  "detect_blobs_threshold img threshold_mode threshold_value =
     (if threshold_mode = ''percentile'' then
        (if threshold_value < 0 \<or> 100 < threshold_value then Inl ValueError
         else if flatten img = [] then Inl IndexError
         else
           let calculated_threshold = percentile_linear (flatten img) threshold_value
           in Inr (np_div calculated_threshold (np_amax (flatten img))))
      else if threshold_mode = ''absolute'' then
        (if flatten img = [] then Inl ValueError
         else
           let calculated_threshold = threshold_value
           in Inr (np_div calculated_threshold (np_amax (flatten img))))
      else Inl ValueError)"

text \<open>
  A raw candidate: a row \<open>z, y, x, sigma\<close> before its intensity is measured.
\<close>

record candidate =
  cand_z :: real
  cand_y :: real
  cand_x :: real
  cand_sigma :: real

text \<open>
  \<^verbatim>\<open>detect_blob_intensities\<close>: the result row is the input row with the measured
  intensity appended as one more column, here the pair of the two.
\<close>

definition measure_intensity :: "real array3 \<Rightarrow> candidate \<Rightarrow> npfloat" where
  "measure_intensity img blob =
     (let z = np_round (cand_z blob); y = np_round (cand_y blob); x = np_round (cand_x blob)
      in if 1 \<le> y \<and> y < int (shape1 img) - 1 \<and>
            1 \<le> x \<and> x < int (shape2 img) - 1 \<and>
            0 \<le> z \<and> z < int (shape0 img)
         then
           let patch = region_values img (nat z)
                         (py_slice (shape1 img) (y - 1) (y + 2))
                         (py_slice (shape2 img) (x - 1) (x + 2))
           in Finite (np_mean patch)
         else NaN)"

definition detect_blob_intensities :: "real array3 \<Rightarrow> candidate list \<Rightarrow> (candidate \<times> npfloat) list" where
  "detect_blob_intensities img blobs =
     (let blob_intensities = map (measure_intensity img) blobs
      in zip blobs blob_intensities)"

section \<open>LocalContrastFilter, MaskBoundaryFilter, SharpnessFilter\<close>

text \<open>
  The test that decides whether \<^verbatim>\<open>filtered_blobs.append(blob)\<close> runs (lines
  124--136).  The mean of an empty region is \<open>nan\<close>, and a comparison with \<open>nan\<close> is
  false.
\<close>

definition local_intensity_keeps :: "real array3 \<Rightarrow> int \<Rightarrow> real \<Rightarrow> blob \<Rightarrow> bool" where
  "local_intensity_keeps img region_size ratio_threshold blob =
     (let z = np_round (blob_z blob); y = np_round (blob_y blob); x = np_round (blob_x blob);
          intensity = blob_intensity blob
      in if region_size \<le> y \<and> y < int (shape1 img) - region_size \<and>
            region_size \<le> x \<and> x < int (shape2 img) - region_size \<and>
            0 \<le> z \<and> z < int (shape0 img)
         then
           let region = region_values img (nat z)
                          (py_slice (shape1 img) (y - region_size) (y + region_size + 1))
                          (py_slice (shape2 img) (x - region_size) (x + region_size + 1))
           in region \<noteq> [] \<and> intensity > ratio_threshold * np_mean region
         else False)"

definition filter_blobs_by_local_intensity ::
  "real array3 \<Rightarrow> blob list \<Rightarrow> int \<Rightarrow> real \<Rightarrow> blob list" where
  "filter_blobs_by_local_intensity img blobs region_size ratio_threshold =
     filter (local_intensity_keeps img region_size ratio_threshold) blobs"

text \<open>
  \<^verbatim>\<open>scipy.ndimage.binary_erosion\<close> is a library routine and a parameter
  \<open>binary_erosion\<close> of the mask filter.  Its result has the shape of its input.
\<close>

definition erosion_keeps_shape :: "(bool array3 \<Rightarrow> int \<Rightarrow> bool array3) \<Rightarrow> bool" where
  "erosion_keeps_shape binary_erosion \<longleftrightarrow>
     (\<forall>m n. shape0 (binary_erosion m n) = shape0 m \<and>
            shape1 (binary_erosion m n) = shape1 m \<and>
            shape2 (binary_erosion m n) = shape2 m)"

text \<open>Line 158: \<^verbatim>\<open>original_mask.astype(bool) & ~eroded_mask.astype(bool)\<close>.\<close>

definition mask_difference :: "bool array3 \<Rightarrow> bool array3 \<Rightarrow> bool array3" where
  "mask_difference original_mask eroded_mask =
     \<lparr>shape0 = shape0 original_mask, shape1 = shape1 original_mask,
      shape2 = shape2 original_mask,
      voxel = (\<lambda>z y x. voxel original_mask z y x \<and> \<not> voxel eroded_mask z y x)\<rparr>"

definition eroded_mask_keeps :: "bool array3 \<Rightarrow> bool array3 \<Rightarrow> blob \<Rightarrow> bool" where
  "eroded_mask_keeps eroded_mask mask_diff blob =
     (let z = np_round (blob_z blob); y = np_round (blob_y blob); x = np_round (blob_x blob)
      in (0 \<le> z \<and> z < int (shape0 eroded_mask) \<and>
          0 \<le> y \<and> y < int (shape1 eroded_mask) \<and>
          0 \<le> x \<and> x < int (shape2 eroded_mask)) \<and>
         \<not> voxel mask_diff (nat z) (nat y) (nat x))"

definition filter_blobs_outside_eroded_mask ::
  "(bool array3 \<Rightarrow> int \<Rightarrow> bool array3) \<Rightarrow> blob list \<Rightarrow> bool array3 \<Rightarrow> int \<Rightarrow>
     blob list \<times> bool array3" where
  "filter_blobs_outside_eroded_mask binary_erosion blobs original_mask erosion_iterations =
     (let eroded_mask = binary_erosion original_mask erosion_iterations;
          mask_diff = mask_difference original_mask eroded_mask;
          filtered = filter (eroded_mask_keeps eroded_mask mask_diff) blobs
      in (filtered, eroded_mask))"

text \<open>
  One pass of erosion with the 6-connected (face) structuring element, entries outside
  the array counting as unset, and its \<open>n\<close>-fold iteration: a concrete erosion that
  keeps the shape.
\<close>

definition erode_once :: "bool array3 \<Rightarrow> bool array3" where
  "erode_once m =
     m\<lparr>voxel := (\<lambda>z y x.
          voxel m z y x \<and>
          0 < z \<and> z + 1 < shape0 m \<and> voxel m (z - 1) y x \<and> voxel m (z + 1) y x \<and>
          0 < y \<and> y + 1 < shape1 m \<and> voxel m z (y - 1) x \<and> voxel m z (y + 1) x \<and>
          0 < x \<and> x + 1 < shape2 m \<and> voxel m z y (x - 1) \<and> voxel m z y (x + 1))\<rparr>"

definition erode_times :: "bool array3 \<Rightarrow> int \<Rightarrow> bool array3" where
  "erode_times m n = (erode_once ^^ nat n) m"

text \<open>Lines 179--186 of \<^verbatim>\<open>filter_blobs_by_sharpness\<close>.\<close>

definition sharpness_keeps :: "real array3 \<Rightarrow> real \<Rightarrow> blob \<Rightarrow> bool" where
  "sharpness_keeps img drop_factor blob =
     (let z = np_round (blob_z blob); y = np_round (blob_y blob); x = np_round (blob_x blob)
      in if \<not> (0 < z \<and> z < int (shape0 img) - 1 \<and>
                0 < y \<and> y < int (shape1 img) - 1 \<and>
                0 < x \<and> x < int (shape2 img) - 1)
         then False
         else
           let center_intensity = voxel img (nat z) (nat y) (nat x);
               local_cube = cube_values img
                              (py_slice (shape0 img) (z - 1) (z + 2))
                              (py_slice (shape1 img) (y - 1) (y + 2))
                              (py_slice (shape2 img) (x - 1) (x + 2));
               local_mean = np_mean local_cube
           in center_intensity > drop_factor * local_mean)"

definition filter_blobs_by_sharpness :: "blob list \<Rightarrow> real array3 \<Rightarrow> real \<Rightarrow> blob list" where
  "filter_blobs_by_sharpness blobs img drop_factor =
     filter (sharpness_keeps img drop_factor) blobs"

section \<open>BridgeSuppressor\<close>

type_synonym point3 = "int \<times> int \<times> int"

text \<open>
  \<^verbatim>\<open>skimage.draw.line_nd\<close> is a library routine and a parameter \<open>line_nd\<close> of the
  bridge suppressor: it returns the voxels of the rasterised segment.  A concrete one,
  following the library's documented default (\<open>endpoint=False\<close>: as many points as the
  longest axis distance, evenly spaced from the start, each coordinate rounded):
\<close>

definition line_nd_linspace :: "point3 \<Rightarrow> point3 \<Rightarrow> point3 list" where
  "line_nd_linspace start stop =
     (case (start, stop) of
        ((z0, y0, x0), (z1, y1, x1)) \<Rightarrow>
          let npoints = nat (max \<bar>z1 - z0\<bar> (max \<bar>y1 - y0\<bar> \<bar>x1 - x0\<bar>))
          in map (\<lambda>k. (np_round (of_int z0 + real k * of_int (z1 - z0) / real npoints),
                       np_round (of_int y0 + real k * of_int (y1 - y0) / real npoints),
                       np_round (of_int x0 + real k * of_int (x1 - x0) / real npoints)))
                 [0 ..< npoints])"

text \<open>
  Integer indexing of one axis of length \<open>n\<close>: a negative index counts from the end,
  anything else outside the axis raises \<^verbatim>\<open>IndexError\<close>.
\<close>

definition np_index :: "nat \<Rightarrow> int \<Rightarrow> nat option" where
  "np_index n i =
     (if 0 \<le> i \<and> i < int n then Some (nat i)
      else if - int n \<le> i \<and> i < 0 then Some (nat (i + int n))
      else None)"

definition voxel_at :: "real array3 \<Rightarrow> point3 \<Rightarrow> error + real" where
  "voxel_at img p =
     (case p of (z, y, x) \<Rightarrow>
        (case (np_index (shape0 img) z, np_index (shape1 img) y, np_index (shape2 img) x) of
           (Some k, Some l, Some m) \<Rightarrow> Inr (voxel img k l m)
         | _ \<Rightarrow> Inl IndexError))"

text \<open>\<^verbatim>\<open>image[tuple(coords)]\<close>: the values at the listed voxels.\<close>

fun sample_line :: "real array3 \<Rightarrow> point3 list \<Rightarrow> error + real list" where
  "sample_line img [] = Inr []"
| "sample_line img (p # ps) =
     (case voxel_at img p of
        Inl e \<Rightarrow> Inl e
      | Inr v \<Rightarrow> (case sample_line img ps of Inl e \<Rightarrow> Inl e | Inr vs \<Rightarrow> Inr (v # vs)))"

text \<open>\<^verbatim>\<open>np.min(values)\<close>: raises \<^verbatim>\<open>ValueError\<close> on an empty array.\<close>

definition np_min :: "real list \<Rightarrow> error + real" where
  "np_min values = (if values = [] then Inl ValueError else Inr (fold min (tl values) (hd values)))"

text \<open>
  Lines 235--237: \<^verbatim>\<open>dip_ratio = min_val / avg_peak\<close> and the test
  \<^verbatim>\<open>dip_ratio > dip_threshold\<close>.  With \<open>avg_peak = 0\<close> the ratio is \<open>inf\<close>,
  \<open>-inf\<close> or \<open>nan\<close>, of which only \<open>inf\<close> exceeds a threshold.
\<close>

definition dip_exceeds :: "real \<Rightarrow> real \<Rightarrow> real \<Rightarrow> bool" where
  "dip_exceeds min_val avg_peak dip_threshold =
     (case np_div min_val avg_peak of
        Finite dip_ratio \<Rightarrow> dip_ratio > dip_threshold
      | PlusInf \<Rightarrow> True
      | MinusInf \<Rightarrow> False
      | NaN \<Rightarrow> False)"

text \<open>Lines 230--235 for one pair: the two quantities the test compares.\<close>

definition bridge_min_val ::
  "(point3 \<Rightarrow> point3 \<Rightarrow> point3 list) \<Rightarrow> real array3 \<Rightarrow> blob \<Rightarrow> blob \<Rightarrow> error + real" where
  "bridge_min_val line_nd img blob1 blob2 =
     (let coords = line_nd (py_int (blob_z blob1), py_int (blob_y blob1), py_int (blob_x blob1))
                           (py_int (blob_z blob2), py_int (blob_y blob2), py_int (blob_x blob2))
      in case sample_line img coords of
           Inl e \<Rightarrow> Inl e
         | Inr values \<Rightarrow> np_min values)"

text \<open>
  The inner loop \<^verbatim>\<open>for j in range(i + 1, len(blobs_sorted))\<close> over the indices
  still to visit.  \<^verbatim>\<open>break\<close> returns without visiting the rest.
\<close>

fun bridge_inner ::
  "(point3 \<Rightarrow> point3 \<Rightarrow> point3 list) \<Rightarrow> real array3 \<Rightarrow> real \<Rightarrow> real \<Rightarrow> real \<Rightarrow>
     blob list \<Rightarrow> nat \<Rightarrow> nat list \<Rightarrow> bool list \<Rightarrow> error + bool list" where
  "bridge_inner line_nd img radius_xy z_window dip_threshold blobs_sorted i [] keep_mask =
     Inr keep_mask"
| "bridge_inner line_nd img radius_xy z_window dip_threshold blobs_sorted i (j # js) keep_mask =
     (if \<not> keep_mask ! j then
        bridge_inner line_nd img radius_xy z_window dip_threshold blobs_sorted i js keep_mask
      else if \<bar>blob_z (blobs_sorted ! j) - blob_z (blobs_sorted ! i)\<bar> > z_window then
        bridge_inner line_nd img radius_xy z_window dip_threshold blobs_sorted i js keep_mask
      else if (blob_y (blobs_sorted ! j) - blob_y (blobs_sorted ! i))\<^sup>2 +
              (blob_x (blobs_sorted ! j) - blob_x (blobs_sorted ! i))\<^sup>2 > radius_xy\<^sup>2 then
        bridge_inner line_nd img radius_xy z_window dip_threshold blobs_sorted i js keep_mask
      else
        (case bridge_min_val line_nd img (blobs_sorted ! i) (blobs_sorted ! j) of
           Inl e \<Rightarrow> Inl e
         | Inr min_val \<Rightarrow>
             if dip_exceeds min_val
                  ((blob_intensity (blobs_sorted ! i) + blob_intensity (blobs_sorted ! j)) / 2)
                  dip_threshold
             then
               (if blob_intensity (blobs_sorted ! i) > blob_intensity (blobs_sorted ! j)
                then bridge_inner line_nd img radius_xy z_window dip_threshold blobs_sorted i js
                       (keep_mask[j := False])
                else Inr (keep_mask[i := False]))
             else
               bridge_inner line_nd img radius_xy z_window dip_threshold blobs_sorted i js
                 keep_mask))"

text \<open>The outer loop \<^verbatim>\<open>for i, blob1 in enumerate(blobs_sorted)\<close>.\<close>

fun bridge_outer ::
  "(point3 \<Rightarrow> point3 \<Rightarrow> point3 list) \<Rightarrow> real array3 \<Rightarrow> real \<Rightarrow> real \<Rightarrow> real \<Rightarrow>
     blob list \<Rightarrow> nat list \<Rightarrow> bool list \<Rightarrow> error + bool list" where
  "bridge_outer line_nd img radius_xy z_window dip_threshold blobs_sorted [] keep_mask =
     Inr keep_mask"
| "bridge_outer line_nd img radius_xy z_window dip_threshold blobs_sorted (i # is) keep_mask =
     (if \<not> keep_mask ! i then
        bridge_outer line_nd img radius_xy z_window dip_threshold blobs_sorted is keep_mask
      else
        (case bridge_inner line_nd img radius_xy z_window dip_threshold blobs_sorted i
                [Suc i ..< length blobs_sorted] keep_mask of
           Inl e \<Rightarrow> Inl e
         | Inr keep_mask' \<Rightarrow>
             bridge_outer line_nd img radius_xy z_window dip_threshold blobs_sorted is
               keep_mask'))"

definition suppress_blobs_by_bridge_intensity ::
  "(point3 \<Rightarrow> point3 \<Rightarrow> point3 list) \<Rightarrow> (real list \<Rightarrow> nat list) \<Rightarrow> blob list \<Rightarrow>
     real array3 \<Rightarrow> real \<Rightarrow> real \<Rightarrow> real \<Rightarrow> error + blob list" where
  "suppress_blobs_by_bridge_intensity line_nd argsort blobs img radius_xy z_window dip_threshold =
     (if length blobs = 0 then Inr blobs
      else
        let blobs_sorted = sort_by_intensity argsort blobs
        in case bridge_outer line_nd img radius_xy z_window dip_threshold blobs_sorted
                  [0 ..< length blobs_sorted] (replicate (length blobs_sorted) True) of
             Inl e \<Rightarrow> Inl e
           | Inr keep_mask \<Rightarrow> Inr (select_mask blobs_sorted keep_mask))"

text \<open>
  The pair rule of the bridge suppressor in the words of the specification (section 4.3),
  as a transition relation, for comparison with the loops above.  A scan state
  \<open>(i, j, keep)\<close> holds the outer index, the next later index to compare it with, and
  the kept marks; the scan starts in \<open>(0, 1, all kept)\<close> and has ended once the outer
  index has reached the number of records.  An outer index that is no longer kept is
  skipped, and one whose later indices are used up is left.  A pair \<open>(i, j)\<close> with
  \<open>i < j\<close> is passed over when \<open>j\<close> is no longer kept, when the pair is outside the
  \<open>z_window\<close> or \<open>radius_xy\<close> gate, or when \<open>dip_ratio\<close> does not exceed
  \<open>dip_threshold\<close>.  Otherwise the lower-intensity member is dropped: if that is
  \<open>j\<close>, it is marked excluded and the scan of \<open>i\<close> goes on with \<open>j + 1\<close>; if it is
  \<open>i\<close> (for records in descending order, when the two intensities are equal), \<open>i\<close> is
  marked excluded and the scan moves to the next outer index at once.  There is no step
  from a pair whose line cannot be sampled.
\<close>

type_synonym scan_state = "nat \<times> nat \<times> bool list"

inductive bridge_spec_step ::
  "(point3 \<Rightarrow> point3 \<Rightarrow> point3 list) \<Rightarrow> real array3 \<Rightarrow> real \<Rightarrow> real \<Rightarrow> real \<Rightarrow>
     blob list \<Rightarrow> scan_state \<Rightarrow> scan_state \<Rightarrow> bool"
  for line_nd img radius_xy z_window dip_threshold blobs_sorted
where
  skip_excluded_i:
    "i < length blobs_sorted \<Longrightarrow> \<not> keep ! i \<Longrightarrow>
     bridge_spec_step line_nd img radius_xy z_window dip_threshold blobs_sorted
       (i, j, keep) (Suc i, Suc (Suc i), keep)"
| scan_finished:
    "i < length blobs_sorted \<Longrightarrow> keep ! i \<Longrightarrow> length blobs_sorted \<le> j \<Longrightarrow>
     bridge_spec_step line_nd img radius_xy z_window dip_threshold blobs_sorted
       (i, j, keep) (Suc i, Suc (Suc i), keep)"
| skip_excluded_j:
    "i < j \<Longrightarrow> j < length blobs_sorted \<Longrightarrow> keep ! i \<Longrightarrow> \<not> keep ! j \<Longrightarrow>
     bridge_spec_step line_nd img radius_xy z_window dip_threshold blobs_sorted
       (i, j, keep) (i, Suc j, keep)"
| skip_outside_gates:
    "i < j \<Longrightarrow> j < length blobs_sorted \<Longrightarrow> keep ! i \<Longrightarrow> keep ! j \<Longrightarrow>
     \<not> within_cylinder radius_xy z_window (blobs_sorted ! i) (blobs_sorted ! j) \<Longrightarrow>
     bridge_spec_step line_nd img radius_xy z_window dip_threshold blobs_sorted
       (i, j, keep) (i, Suc j, keep)"
| keep_both:
    "i < j \<Longrightarrow> j < length blobs_sorted \<Longrightarrow> keep ! i \<Longrightarrow> keep ! j \<Longrightarrow>
     within_cylinder radius_xy z_window (blobs_sorted ! i) (blobs_sorted ! j) \<Longrightarrow>
     bridge_min_val line_nd img (blobs_sorted ! i) (blobs_sorted ! j) = Inr min_val \<Longrightarrow>
     \<not> dip_exceeds min_val
         ((blob_intensity (blobs_sorted ! i) + blob_intensity (blobs_sorted ! j)) / 2)
         dip_threshold \<Longrightarrow>
     bridge_spec_step line_nd img radius_xy z_window dip_threshold blobs_sorted
       (i, j, keep) (i, Suc j, keep)"
| drop_j_continue:
    "i < j \<Longrightarrow> j < length blobs_sorted \<Longrightarrow> keep ! i \<Longrightarrow> keep ! j \<Longrightarrow>
     within_cylinder radius_xy z_window (blobs_sorted ! i) (blobs_sorted ! j) \<Longrightarrow>
     bridge_min_val line_nd img (blobs_sorted ! i) (blobs_sorted ! j) = Inr min_val \<Longrightarrow>
     dip_exceeds min_val
       ((blob_intensity (blobs_sorted ! i) + blob_intensity (blobs_sorted ! j)) / 2)
       dip_threshold \<Longrightarrow>
     blob_intensity (blobs_sorted ! j) < blob_intensity (blobs_sorted ! i) \<Longrightarrow>
     bridge_spec_step line_nd img radius_xy z_window dip_threshold blobs_sorted
       (i, j, keep) (i, Suc j, keep[j := False])"
| drop_i_break:
    "i < j \<Longrightarrow> j < length blobs_sorted \<Longrightarrow> keep ! i \<Longrightarrow> keep ! j \<Longrightarrow>
     within_cylinder radius_xy z_window (blobs_sorted ! i) (blobs_sorted ! j) \<Longrightarrow>
     bridge_min_val line_nd img (blobs_sorted ! i) (blobs_sorted ! j) = Inr min_val \<Longrightarrow>
     dip_exceeds min_val
       ((blob_intensity (blobs_sorted ! i) + blob_intensity (blobs_sorted ! j)) / 2)
       dip_threshold \<Longrightarrow>
     blob_intensity (blobs_sorted ! i) \<le> blob_intensity (blobs_sorted ! j) \<Longrightarrow>
     bridge_spec_step line_nd img radius_xy z_window dip_threshold blobs_sorted
       (i, j, keep) (Suc i, Suc (Suc i), keep[i := False])"

text \<open>
  A volume of constant intensity 190, a pair of blobs 30 px apart in X, and two triples
  of blobs: in both the first blob is 20 px from the second and 25 px from the third,
  and the second and third are more than 30 px apart.
\<close>

definition flat_img :: "real array3" where
  "flat_img = \<lparr>shape0 = 10, shape1 = 100, shape2 = 100, voxel = (\<lambda>z y x. 190)\<rparr>"

definition far_pair :: "blob list" where
  "far_pair = [mk_blob 5 50 50 2 200, mk_blob 5 50 80 2 190]"

definition tied_triple :: "blob list" where
  "tied_triple = [mk_blob 5 50 50 2 200, mk_blob 5 50 70 2 200, mk_blob 5 75 50 2 190]"

definition falling_triple :: "blob list" where
  "falling_triple = [mk_blob 5 50 50 2 200, mk_blob 5 50 70 2 195, mk_blob 5 75 50 2 190]"

text \<open>A full 5 x 5 x 5 mask and an all-zero 2 x 2 x 2 volume.\<close>

definition full_mask :: "bool array3" where
  "full_mask = \<lparr>shape0 = 5, shape1 = 5, shape2 = 5, voxel = (\<lambda>z y x. True)\<rparr>"

definition zero_img :: "real array3" where
  "zero_img = \<lparr>shape0 = 2, shape1 = 2, shape2 = 2, voxel = (\<lambda>z y x. 0)\<rparr>"

text \<open>A 1 x 21 x 30 volume of constant intensity 1, and raw candidates.\<close>

definition unit_img :: "real array3" where
  "unit_img = \<lparr>shape0 = 1, shape1 = 21, shape2 = 30, voxel = (\<lambda>z y x. 1)\<rparr>"

definition mk_cand :: "real \<Rightarrow> real \<Rightarrow> real \<Rightarrow> real \<Rightarrow> candidate" where
  "mk_cand z y x s = \<lparr>cand_z = z, cand_y = y, cand_x = x, cand_sigma = s\<rparr>"

section \<open>Index sorts\<close>

lemma np_argsort_spec_stable: "np_argsort_spec argsort_stable"
  by (simp add: np_argsort_spec_def argsort_stable_def)

section \<open>ProximitySuppressor: the surviving records\<close>

lemma length_close_step [simp]:
  "length (close_step r zw bs i j km) = length km"
  by (simp add: close_step_def)

lemma length_fold_close_step [simp]:
  "length (fold (close_step r zw bs i) js km) = length km"
  by (induction js arbitrary: km) simp_all

lemma length_close_inner [simp]:
  "length (close_inner r zw bs i km) = length km"
  by (simp add: close_inner_def)

lemma length_close_outer [simp]:
  "length (close_outer r zw bs is km) = length km"
  unfolding close_outer_def by (induction "is" arbitrary: km) simp_all

lemma close_step_nth:
  "k < length km \<Longrightarrow>
   close_step r zw bs i j km ! k =
     (km ! k \<and> \<not> (k = j \<and> within_cylinder r zw (bs ! i) (bs ! k)))"
  by (cases "k = j") (auto simp: close_step_def)

lemma fold_close_step_nth:
  "k < length km \<Longrightarrow>
   fold (close_step r zw bs i) js km ! k =
     (km ! k \<and> \<not> (k \<in> set js \<and> within_cylinder r zw (bs ! i) (bs ! k)))"
proof (induction js arbitrary: km)
  case Nil
  then show ?case by simp
next
  case (Cons j js)
  have "fold (close_step r zw bs i) (j # js) km ! k =
        fold (close_step r zw bs i) js (close_step r zw bs i j km) ! k"
    by simp
  also have "\<dots> = (close_step r zw bs i j km ! k \<and>
                   \<not> (k \<in> set js \<and> within_cylinder r zw (bs ! i) (bs ! k)))"
    using Cons.prems by (intro Cons.IH) simp
  finally show ?case
    using Cons.prems by (auto simp: close_step_nth)
qed

lemma close_inner_nth:
  "k < length km \<Longrightarrow>
   close_inner r zw bs i km ! k =
     (km ! k \<and> \<not> (i < k \<and> k < length bs \<and> within_cylinder r zw (bs ! i) (bs ! k)))"
  by (auto simp: close_inner_def fold_close_step_nth)

lemma close_outer_upt_Suc:
  "close_outer r zw bs ([0..<m] @ [m]) km =
     (let km' = close_outer r zw bs [0..<m] km
      in if \<not> km' ! m then km' else close_inner r zw bs m km')"
  by (simp add: close_outer_def Let_def)

lemma close_outer_invariant:
  "length km = length bs \<Longrightarrow> m \<le> length bs \<Longrightarrow>
   no_close_pair_upto r zw bs m (close_outer r zw bs [0..<m] km)"
proof (induction m)
  case 0
  then show ?case by (simp add: no_close_pair_upto_def)
next
  case (Suc m)
  define km' where "km' = close_outer r zw bs [0..<m] km"
  have len: "length km' = length bs" using Suc.prems by (simp add: km'_def)
  have inv: "no_close_pair_upto r zw bs m km'"
    using Suc by (simp add: km'_def)
  show ?case
  proof (cases "km' ! m")
    case False
    then have eq: "close_outer r zw bs [0..<Suc m] km = km'"
      by (simp add: close_outer_upt_Suc km'_def)
    show ?thesis
      unfolding eq no_close_pair_upto_def
      using inv False by (auto simp: no_close_pair_upto_def less_Suc_eq)
  next
    case True
    then have eq: "close_outer r zw bs [0..<Suc m] km = close_inner r zw bs m km'"
      by (simp add: close_outer_upt_Suc km'_def)
    show ?thesis
      unfolding eq no_close_pair_upto_def
      using inv len Suc.prems(2)
      by (auto simp: no_close_pair_upto_def less_Suc_eq close_inner_nth)
  qed
qed

lemma in_set_select_mask:
  "b \<in> set (select_mask xs km) \<longleftrightarrow> (\<exists>i. i < length xs \<and> i < length km \<and> km ! i \<and> b = xs ! i)"
proof -
  have "b \<in> set (select_mask xs km) \<longleftrightarrow> (b, True) \<in> set (zip xs km)"
    unfolding select_mask_def by force
  also have "\<dots> \<longleftrightarrow> (\<exists>i. i < length xs \<and> i < length km \<and> km ! i \<and> b = xs ! i)"
    unfolding in_set_zip by auto
  finally show ?thesis .
qed

lemma select_mask_Cons:
  "select_mask (x # xs) (k # km) = (if k then x # select_mask xs km else select_mask xs km)"
  by (simp add: select_mask_def)

lemma sorted_wrt_select_mask:
  "(\<forall>i j. i < j \<and> j < length xs \<and> j < length km \<and> km ! i \<and> km ! j \<longrightarrow> P (xs ! i) (xs ! j)) \<Longrightarrow>
   sorted_wrt P (select_mask xs km)"
proof (induction xs arbitrary: km)
  case Nil
  then show ?case by (simp add: select_mask_def)
next
  case (Cons x xs)
  show ?case
  proof (cases km)
    case Nil
    then show ?thesis by (simp add: select_mask_def)
  next
    case (Cons k km')
    have tl: "sorted_wrt P (select_mask xs km')"
    proof (rule Cons.IH, intro allI impI)
      fix i j assume "i < j \<and> j < length xs \<and> j < length km' \<and> km' ! i \<and> km' ! j"
      then show "P (xs ! i) (xs ! j)"
        using Cons.prems[rule_format, of "Suc i" "Suc j"] Cons by simp
    qed
    have hd: "P x b" if "k" "b \<in> set (select_mask xs km')" for b
    proof -
      from that(2) obtain j where "j < length xs" "j < length km'" "km' ! j" "b = xs ! j"
        by (auto simp: in_set_select_mask)
      then show ?thesis
        using Cons.prems[rule_format, of 0 "Suc j"] Cons that(1) by simp
    qed
    show ?thesis
      using tl hd by (simp add: Cons select_mask_Cons)
  qed
qed

lemma within_cylinder_sym:
  "within_cylinder r zw a b = within_cylinder r zw b a"
  by (simp add: within_cylinder_def abs_minus_commute power2_commute)

lemma sorted_wrt_suppress_close:
  "sorted_wrt (\<lambda>a b. \<not> within_cylinder r zw a b)
     (suppress_close_blobs_by_intensity argsort blobs r zw)"
proof (cases "length blobs = 0")
  case True
  then show ?thesis by (simp add: suppress_close_blobs_by_intensity_def)
next
  case False
  define bs where "bs = sort_by_intensity argsort blobs"
  define km where "km = close_outer r zw bs [0..<length bs] (replicate (length bs) True)"
  have out: "suppress_close_blobs_by_intensity argsort blobs r zw = select_mask bs km"
    using False by (simp add: suppress_close_blobs_by_intensity_def Let_def bs_def km_def)
  have "no_close_pair_upto r zw bs (length bs) km"
    unfolding km_def by (rule close_outer_invariant) simp_all
  then show ?thesis
    unfolding out by (intro sorted_wrt_select_mask) (auto simp: no_close_pair_upto_def)
qed

text \<open>
  Claim C1.  Whatever the blob list, \<open>radius_xy\<close> and \<open>z_window\<close>, no two
  distinct records returned by \<open>suppress_close_blobs_by_intensity\<close> are both within
  \<open>z_window\<close> of each other in Z and within \<open>radius_xy\<close> of each other in XY.
\<close>

theorem C1_no_close_pair_survives:
  "let out = suppress_close_blobs_by_intensity argsort blobs radius_xy z_window
   in \<forall>p < length out. \<forall>q < length out. p \<noteq> q \<longrightarrow>
        \<not> (\<bar>blob_z (out ! p) - blob_z (out ! q)\<bar> \<le> z_window \<and>
           (blob_y (out ! p) - blob_y (out ! q))\<^sup>2 + (blob_x (out ! p) - blob_x (out ! q))\<^sup>2
             \<le> radius_xy\<^sup>2)"
proof -
  define out where "out = suppress_close_blobs_by_intensity argsort blobs radius_xy z_window"
  have sw: "sorted_wrt (\<lambda>a b. \<not> within_cylinder radius_xy z_window a b) out"
    unfolding out_def by (rule sorted_wrt_suppress_close)
  have "\<not> within_cylinder radius_xy z_window (out ! q) (out ! p)"
    if "p < length out" "q < length out" "p \<noteq> q" for p q
  proof (cases "p < q")
    case True
    then have "\<not> within_cylinder radius_xy z_window (out ! p) (out ! q)"
      using sw that by (simp add: sorted_wrt_iff_nth_less)
    then show ?thesis by (simp add: within_cylinder_sym)
  next
    case False
    then have "q < p" using that by simp
    then show ?thesis
      using sw that by (simp add: sorted_wrt_iff_nth_less)
  qed
  then show ?thesis
    unfolding out_def[symmetric] Let_def within_cylinder_def by blast
qed

lemma ex_blobs_suppressed:
  "suppress_close_blobs_by_intensity argsort_stable ex_blobs 10 2 =
     [mk_blob 5 53 50 2 200, mk_blob 5 100 100 2 100]"
  by (simp add: suppress_close_blobs_by_intensity_def sort_by_intensity_def ex_blobs_def
      argsort_stable_def
      close_outer_def close_inner_def close_step_def within_cylinder_def select_mask_def
      mk_blob_def upt_conv_Cons Let_def)

theorem C1_no_close_pair_survives_witness:
  "let out = suppress_close_blobs_by_intensity argsort_stable ex_blobs 10 2
   in (0::nat) < length out \<and> (1::nat) < length out \<and> (0::nat) \<noteq> 1 \<and>
      \<not> (\<bar>blob_z (out ! 0) - blob_z (out ! 1)\<bar> \<le> 2 \<and>
         (blob_y (out ! 0) - blob_y (out ! 1))\<^sup>2 + (blob_x (out ! 0) - blob_x (out ! 1))\<^sup>2
           \<le> 10\<^sup>2)"
  using C1_no_close_pair_survives [of argsort_stable ex_blobs 10 2, unfolded Let_def,
      rule_format, of 0 1]
  by (simp add: ex_blobs_suppressed Let_def mk_blob_def)

section \<open>ProximitySuppressor: processing order\<close>

lemma argsort_indices:
  assumes "np_argsort_spec argsort"
  shows "set (argsort keys) = {0..<length keys}"
    and "distinct (argsort keys)"
    and "length (argsort keys) = length keys"
proof -
  have m: "mset (argsort keys) = mset [0..<length keys]"
    using assms by (simp add: np_argsort_spec_def)
  show "set (argsort keys) = {0..<length keys}"
    using mset_eq_setD[OF m] by simp
  show "distinct (argsort keys)"
    using mset_eq_imp_distinct_iff[OF m] by simp
  show "length (argsort keys) = length keys"
    using mset_eq_length[OF m] by simp
qed

lemma mset_sort_by_intensity:
  assumes "np_argsort_spec argsort"
  shows "mset (sort_by_intensity argsort blobs) = mset blobs"
proof -
  let ?keys = "map (\<lambda>b. - blob_intensity b) blobs"
  have "mset (argsort ?keys) = mset [0..<length blobs]"
    using assms by (simp add: np_argsort_spec_def)
  then have "mset (map (\<lambda>i. blobs ! i) (argsort ?keys)) = mset (map (\<lambda>i. blobs ! i) [0..<length blobs])"
    by (simp only: mset_map)
  then show ?thesis
    by (simp only: sort_by_intensity_def Let_def map_nth)
qed

lemma sorted_sort_by_intensity:
  assumes "np_argsort_spec argsort"
  shows "sorted_wrt (\<lambda>a b. blob_intensity a \<ge> blob_intensity b) (sort_by_intensity argsort blobs)"
proof -
  let ?keys = "map (\<lambda>b. - blob_intensity b) blobs"
  have s: "sorted (map (\<lambda>i. ?keys ! i) (argsort ?keys))"
    using assms by (simp add: np_argsort_spec_def)
  have "map (\<lambda>i. ?keys ! i) (argsort ?keys) =
        map (\<lambda>b. - blob_intensity b) (sort_by_intensity argsort blobs)"
    using argsort_indices(1)[OF assms, of ?keys]
    by (auto simp: sort_by_intensity_def)
  with s show ?thesis
    by (simp add: sorted_wrt_map)
qed

lemma subseq_select_mask: "subseq (select_mask xs km) xs"
proof (induction xs arbitrary: km)
  case Nil
  then show ?case by (simp add: select_mask_def)
next
  case (Cons x xs)
  show ?case
  proof (cases km)
    case Nil
    then show ?thesis by (simp add: select_mask_def)
  next
    case (Cons k km')
    then show ?thesis
      using Cons.IH[of km'] by (auto simp: select_mask_Cons intro: list_emb_Cons)
  qed
qed

lemma subseq_suppress_close:
  "subseq (suppress_close_blobs_by_intensity argsort blobs r zw) (sort_by_intensity argsort blobs)"
  by (simp add: suppress_close_blobs_by_intensity_def Let_def subseq_select_mask)

lemma sorted_wrt_subseq_list:
  "subseq ys xs \<Longrightarrow> sorted_wrt P xs \<Longrightarrow> sorted_wrt P ys"
proof (induction rule: list_emb.induct)
  case (list_emb_Nil ys)
  then show ?case by simp
next
  case (list_emb_Cons xs ys y)
  then show ?case by simp
next
  case (list_emb_Cons2 x y xs ys)
  then show ?case
    by (auto dest: list_emb_set[where P = "(=)"])
qed

text \<open>
  With any index sort that meets \<open>np_argsort_spec\<close>, the processing order
  \<open>sort_by_intensity\<close> is a rearrangement of the input in non-increasing intensity, and
  the result of \<open>suppress_close_blobs_by_intensity\<close> is a subsequence of that order, hence
  again in non-increasing intensity.
\<close>

lemma suppress_close_sorted_descending:
  assumes "np_argsort_spec argsort"
  shows "mset (sort_by_intensity argsort blobs) = mset blobs \<and>
         sorted_wrt (\<lambda>a b. blob_intensity a \<ge> blob_intensity b) (sort_by_intensity argsort blobs) \<and>
         subseq (suppress_close_blobs_by_intensity argsort blobs radius_xy z_window)
                (sort_by_intensity argsort blobs) \<and>
         sorted_wrt (\<lambda>a b. blob_intensity a \<ge> blob_intensity b)
           (suppress_close_blobs_by_intensity argsort blobs radius_xy z_window)"
  using assms
  by (auto simp: mset_sort_by_intensity sorted_sort_by_intensity subseq_suppress_close
      intro: sorted_wrt_subseq_list[OF subseq_suppress_close])

section \<open>ProximitySuppressor: running it twice\<close>

lemma close_inner_unchanged:
  assumes "length km = length bs"
    and "\<forall>k. i < k \<and> k < length bs \<and> km ! k \<longrightarrow> \<not> within_cylinder r zw (bs ! i) (bs ! k)"
  shows "close_inner r zw bs i km = km"
  using assms by (auto simp: list_eq_iff_nth_eq close_inner_nth)

lemma close_outer_unchanged:
  assumes "length km = length bs"
    and "\<forall>i k. i < k \<and> k < length bs \<longrightarrow> \<not> within_cylinder r zw (bs ! i) (bs ! k)"
  shows "close_outer r zw bs is km = km"
proof -
  have step: "(if \<not> km ! i then km else close_inner r zw bs i km) = km" for i
    using assms by (simp add: close_inner_unchanged)
  show ?thesis
    unfolding close_outer_def
    by (induction "is") (simp_all add: step)
qed

lemma select_mask_all_True: "select_mask xs (replicate (length xs) True) = xs"
  by (induction xs) (simp_all add: select_mask_def)

lemma suppress_close_no_pairs:
  assumes "\<forall>i k. i < k \<and> k < length (sort_by_intensity argsort blobs) \<longrightarrow>
             \<not> within_cylinder r zw (sort_by_intensity argsort blobs ! i)
                                    (sort_by_intensity argsort blobs ! k)"
    and "blobs \<noteq> []"
  shows "suppress_close_blobs_by_intensity argsort blobs r zw = sort_by_intensity argsort blobs"
  using assms
  by (simp add: suppress_close_blobs_by_intensity_def Let_def close_outer_unchanged
      select_mask_all_True)

lemma sorted_wrt_sym_nth:
  assumes "sorted_wrt P xs" "\<And>a b. P a b \<Longrightarrow> P b a" "p < length xs" "q < length xs" "p \<noteq> q"
  shows "P (xs ! p) (xs ! q)"
proof (cases "p < q")
  case True
  then show ?thesis using assms by (simp add: sorted_wrt_iff_nth_less)
next
  case False
  then have "q < p" using assms by simp
  then have "P (xs ! q) (xs ! p)" using assms by (simp add: sorted_wrt_iff_nth_less)
  then show ?thesis by (rule assms(2))
qed

lemma sort_by_intensity_no_pairs:
  assumes spec: "np_argsort_spec argsort"
    and sw: "sorted_wrt (\<lambda>a b. \<not> within_cylinder r zw a b) xs"
    and ik: "i < k" "k < length (sort_by_intensity argsort xs)"
  shows "\<not> within_cylinder r zw (sort_by_intensity argsort xs ! i) (sort_by_intensity argsort xs ! k)"
proof -
  let ?keys = "map (\<lambda>b. - blob_intensity b) xs"
  let ?p = "argsort ?keys"
  have len: "length ?p = length xs" using argsort_indices(3)[OF spec, of ?keys] by simp
  have k: "k < length ?p" using ik by (simp add: sort_by_intensity_def)
  then have i: "i < length ?p" using ik by simp
  have "?p ! i \<in> set ?p" "?p ! k \<in> set ?p" using i k by simp_all
  then have r1: "?p ! i < length xs" "?p ! k < length xs"
    using argsort_indices(1)[OF spec, of ?keys] by simp_all
  have "?p ! i \<noteq> ?p ! k"
    using argsort_indices(2)[OF spec, of ?keys] i k ik(1) by (simp add: nth_eq_iff_index_eq)
  then have "\<not> within_cylinder r zw (xs ! (?p ! i)) (xs ! (?p ! k))"
    using sorted_wrt_sym_nth[OF sw _ r1] by (simp add: within_cylinder_sym)
  then show ?thesis
    using i k by (simp add: sort_by_intensity_def)
qed

lemma suppress_close_twice:
  assumes spec: "np_argsort_spec argsort"
  shows "suppress_close_blobs_by_intensity argsort
           (suppress_close_blobs_by_intensity argsort blobs r zw) r zw =
         sort_by_intensity argsort (suppress_close_blobs_by_intensity argsort blobs r zw)"
proof (cases "suppress_close_blobs_by_intensity argsort blobs r zw = []")
  case True
  have "sort_by_intensity argsort [] = []"
    using argsort_indices(3)[OF spec, of "[]"] by (simp add: sort_by_intensity_def)
  then show ?thesis
    using True by (simp add: suppress_close_blobs_by_intensity_def)
next
  case False
  show ?thesis
    by (rule suppress_close_no_pairs[OF _ False])
       (use sort_by_intensity_no_pairs[OF spec sorted_wrt_suppress_close] in blast)
qed

lemma argsort_strictly_sorted:
  assumes spec: "np_argsort_spec argsort" and "sorted_wrt (<) keys"
  shows "argsort keys = [0..<length keys]"
proof -
  let ?p = "argsort keys"
  have s: "sorted (map (\<lambda>i. keys ! i) ?p)"
    using spec by (simp add: np_argsort_spec_def)
  have m: "mset ?p = mset [0..<length keys]"
    using spec by (simp add: np_argsort_spec_def)
  have "sorted ?p"
    unfolding sorted_wrt_iff_nth_less
  proof (intro allI impI)
    fix i j assume ij: "i < j" "j < length ?p"
    then have "keys ! (?p ! i) \<le> keys ! (?p ! j)"
      using s by (simp add: sorted_wrt_iff_nth_less)
    moreover have "?p ! i \<in> set ?p" "?p ! j \<in> set ?p" using ij by simp_all
    then have "?p ! i < length keys" "?p ! j < length keys"
      using argsort_indices(1)[OF spec, of keys] by simp_all
    ultimately show "?p ! i \<le> ?p ! j"
      using assms(2) by (metis sorted_wrt_nth_less not_le_imp_less not_less)
  qed
  then have "sort [0..<length keys] = ?p"
    using m by (intro properties_for_sort) simp_all
  then show ?thesis by simp
qed

lemma sort_by_intensity_strictly_sorted:
  assumes spec: "np_argsort_spec argsort"
    and "sorted_wrt (\<lambda>a b. blob_intensity a > blob_intensity b) xs"
  shows "sort_by_intensity argsort xs = xs"
proof -
  have "sorted_wrt (<) (map (\<lambda>b. - blob_intensity b) xs)"
    using assms(2) by (simp add: sorted_wrt_map)
  then show ?thesis
    by (simp add: sort_by_intensity_def argsort_strictly_sorted[OF spec] map_nth)
qed

text \<open>
  With any index sort that meets \<open>np_argsort_spec\<close>, a second run of
  \<open>suppress_close_blobs_by_intensity\<close> on its own output drops nothing: the result holds
  the same records, and it is the same list whenever no two surviving records have equal
  intensity.
\<close>

lemma suppress_close_second_run:
  assumes "np_argsort_spec argsort"
  shows "let out = suppress_close_blobs_by_intensity argsort blobs radius_xy z_window
         in mset (suppress_close_blobs_by_intensity argsort out radius_xy z_window) = mset out \<and>
            (distinct (map blob_intensity out) \<longrightarrow>
               suppress_close_blobs_by_intensity argsort out radius_xy z_window = out)"
proof -
  define out where "out = suppress_close_blobs_by_intensity argsort blobs radius_xy z_window"
  have twice: "suppress_close_blobs_by_intensity argsort out radius_xy z_window =
               sort_by_intensity argsort out"
    unfolding out_def by (rule suppress_close_twice[OF assms])
  have srt: "sorted_wrt (\<lambda>a b. blob_intensity a \<ge> blob_intensity b) out"
    unfolding out_def
    by (rule sorted_wrt_subseq_list[OF subseq_suppress_close sorted_sort_by_intensity[OF assms]])
  have "sort_by_intensity argsort out = out" if d: "distinct (map blob_intensity out)"
  proof (rule sort_by_intensity_strictly_sorted[OF assms])
    show "sorted_wrt (\<lambda>a b. blob_intensity a > blob_intensity b) out"
      unfolding sorted_wrt_iff_nth_less
    proof (intro allI impI)
      fix i j assume ij: "i < j" "j < length out"
      then have "blob_intensity (out ! i) \<ge> blob_intensity (out ! j)"
        using srt by (simp add: sorted_wrt_iff_nth_less)
      moreover have "map blob_intensity out ! i \<noteq> map blob_intensity out ! j"
        using d ij by (simp add: nth_eq_iff_index_eq del: nth_map)
      ultimately show "blob_intensity (out ! i) > blob_intensity (out ! j)"
        using ij by simp
    qed
  qed
  then show ?thesis
    unfolding out_def[symmetric] Let_def twice
    by (simp add: mset_sort_by_intensity[OF assms])
qed

section \<open>BridgeSuppressor: pairs and scans\<close>

lemma np_round_of_int [simp]: "np_round (of_int k) = k"
  by (simp add: np_round_def)

lemma np_round_numeral [simp]: "np_round (numeral n) = numeral n"
  using np_round_of_int[of "numeral n"] by simp

lemma np_round_numeral_plus_nat [simp]: "np_round (numeral n + real k) = numeral n + int k"
  using np_round_of_int[of "numeral n + int k"] by simp

lemma py_int_numeral [simp]: "py_int (numeral n) = numeral n"
  by (simp add: py_int_def)

lemma sample_line_const:
  "\<forall>p \<in> set ps. voxel_at img p = Inr c \<Longrightarrow> sample_line img ps = Inr (replicate (length ps) c)"
  by (induction ps) simp_all

lemma np_min_replicate: "0 < n \<Longrightarrow> np_min (replicate n c) = Inr c"
proof -
  have "fold min (replicate m c) c = c" for m
    by (induction m) simp_all
  then show "0 < n \<Longrightarrow> np_min (replicate n c) = Inr c"
    by (cases n) (simp_all add: np_min_def)
qed

lemma voxel_at_flat_img:
  "0 \<le> z \<Longrightarrow> z < 10 \<Longrightarrow> 0 \<le> y \<Longrightarrow> y < 100 \<Longrightarrow> 0 \<le> x \<Longrightarrow> x < 100 \<Longrightarrow>
   voxel_at flat_img (z, y, x) = Inr 190"
  by (simp add: voxel_at_def flat_img_def np_index_def)

lemma line_far_pair:
  "line_nd_linspace (5, 50, 50) (5, 50, 80) = map (\<lambda>k. (5, 50, 50 + int k)) [0..<30]"
  by (simp add: line_nd_linspace_def)

lemma far_pair_min_val:
  "bridge_min_val line_nd_linspace flat_img (mk_blob 5 50 50 2 200) (mk_blob 5 50 80 2 190) = Inr 190"
proof -
  have "sample_line flat_img (map (\<lambda>k. (5, 50, 50 + int k)) [0..<30]) =
        Inr (replicate (length (map (\<lambda>k. (5::int, 50::int, 50 + int k)) [0..<30])) 190)"
    by (rule sample_line_const) (auto simp: voxel_at_flat_img)
  then show ?thesis
    by (simp add: bridge_min_val_def mk_blob_def line_far_pair np_min_replicate)
qed

lemma far_pair_sorted: "sort_by_intensity argsort_stable far_pair = far_pair"
  by (simp add: sort_by_intensity_def far_pair_def argsort_stable_def mk_blob_def upt_conv_Cons)

lemma far_pair_dropped:
  "suppress_blobs_by_bridge_intensity line_nd_linspace argsort_stable far_pair flat_img 30 4 (1/2) =
     Inr [mk_blob 5 50 50 2 200]"
  apply (simp add: suppress_blobs_by_bridge_intensity_def far_pair_sorted)
  apply (simp add: far_pair_def select_mask_def upt_conv_Cons far_pair_min_val)
  apply (simp add: mk_blob_def dip_exceeds_def np_div_def)
  done

lemma argsort_two:
  assumes spec: "np_argsort_spec argsort"
  shows "k0 < k1 \<Longrightarrow> argsort [k0, k1] = [0, 1]"
    and "k1 < k0 \<Longrightarrow> argsort [k0, k1] = [1, 0]"
proof -
  let ?p = "argsort [k0, k1]"
  have len: "length ?p = Suc (Suc 0)" using argsort_indices(3)[OF spec, of "[k0, k1]"] by simp
  have "set ?p = {0..<Suc (Suc 0)}" using argsort_indices(1)[OF spec, of "[k0, k1]"] by simp
  also have "\<dots> = {0, Suc 0}" by (simp add: atLeast0_lessThan_Suc insert_commute)
  finally have st: "set ?p = {0, Suc 0}" .
  have d: "distinct ?p" by (rule argsort_indices(2)[OF spec])
  have s: "sorted (map (\<lambda>i. [k0, k1] ! i) ?p)"
    using spec by (simp add: np_argsort_spec_def)
  obtain a b where p: "?p = [a, b]"
    using len by (auto simp: length_Suc_conv)
  have "{a, b} = {0, Suc 0}" using st unfolding p by simp
  then have ab: "(a = 0 \<and> b = Suc 0) \<or> (a = Suc 0 \<and> b = 0)"
    by (simp add: doubleton_eq_iff)
  have s': "[k0, k1] ! a \<le> [k0, k1] ! b" using s unfolding p by simp
  show "k0 < k1 \<Longrightarrow> argsort [k0, k1] = [0, 1]"
    using ab s' unfolding p by auto
  show "k1 < k0 \<Longrightarrow> argsort [k0, k1] = [1, 0]"
    using ab s' unfolding p by auto
qed

lemma sort_by_intensity_two:
  assumes spec: "np_argsort_spec argsort" and "blob_intensity b < blob_intensity a"
  shows "sort_by_intensity argsort [a, b] = [a, b]"
    and "sort_by_intensity argsort [b, a] = [a, b]"
  using assms(2) by (simp_all add: sort_by_intensity_def argsort_two[OF spec])

lemma bridge_pair_inside:
  assumes "\<bar>blob_z b - blob_z a\<bar> \<le> z_window"
    and "(blob_y b - blob_y a)\<^sup>2 + (blob_x b - blob_x a)\<^sup>2 \<le> radius_xy\<^sup>2"
    and "bridge_min_val line_nd img a b = Inr min_val"
    and "dip_exceeds min_val ((blob_intensity a + blob_intensity b) / 2) dip_threshold"
    and "blob_intensity b < blob_intensity a"
  shows "bridge_outer line_nd img radius_xy z_window dip_threshold [a, b] [0..<2] [True, True] =
         Inr [True, False]"
  using assms by (simp add: upt_conv_Cons)

lemma set_select_mask_subset: "set (select_mask xs km) \<subseteq> set xs"
  by (auto simp: in_set_select_mask)

lemma set_sort_by_intensity:
  "np_argsort_spec argsort \<Longrightarrow> set (sort_by_intensity argsort blobs) = set blobs"
  using mset_sort_by_intensity[of argsort blobs] by (metis set_mset_mset)

lemma set_suppress_bridge:
  assumes "np_argsort_spec argsort"
    and "suppress_blobs_by_bridge_intensity line_nd argsort blobs img r zw dt = Inr out"
  shows "set out \<subseteq> set blobs"
  using assms set_select_mask_subset[of "sort_by_intensity argsort blobs"]
  by (auto simp: suppress_blobs_by_bridge_intensity_def Let_def set_sort_by_intensity
      split: if_splits sum.splits)

lemma set_suppress_close:
  assumes "np_argsort_spec argsort"
  shows "set (suppress_close_blobs_by_intensity argsort blobs r zw) \<subseteq> set blobs"
  using assms set_select_mask_subset[of "sort_by_intensity argsort blobs"]
  by (auto simp: suppress_close_blobs_by_intensity_def Let_def set_sort_by_intensity
      split: if_splits)

lemma bridge_spec_step_deterministic:
  assumes "bridge_spec_step line_nd img r zw dt bs s t"
    and "bridge_spec_step line_nd img r zw dt bs s u"
  shows "t = u"
  using assms
  by (auto elim!: bridge_spec_step.cases)

lemma bridge_inner_run:
  assumes "i < j" "i < length bs" "km ! i"
    and "bridge_inner line_nd img r zw dt bs i [j..<length bs] km = Inr km'"
  shows "rtranclp (bridge_spec_step line_nd img r zw dt bs) (i, j, km) (Suc i, Suc (Suc i), km')"
  using assms
proof (induction "length bs - j" arbitrary: j km)
  case 0
  then have "length bs \<le> j" by simp
  then have "km' = km" using "0.prems"(4) by simp
  moreover have "bridge_spec_step line_nd img r zw dt bs (i, j, km) (Suc i, Suc (Suc i), km)"
    using \<open>length bs \<le> j\<close> "0.prems"(2,3) by (rule_tac scan_finished)
  ultimately show ?case by blast
next
  case (Suc d)
  let ?S = "bridge_spec_step line_nd img r zw dt bs"
  have jn: "j < length bs" using Suc.hyps(2) by simp
  have upt: "[j..<length bs] = j # [Suc j..<length bs]"
    using jn by (simp add: upt_conv_Cons)
  have d: "d = length bs - Suc j" using Suc.hyps(2) by simp
  have ij: "i < Suc j" using Suc.prems(1) by simp
  note run = Suc.prems(4)[unfolded upt]
  have rest: "rtranclp ?S (i, Suc j, m) (Suc i, Suc (Suc i), km')"
    if "m ! i" "bridge_inner line_nd img r zw dt bs i [Suc j..<length bs] m = Inr km'" for m
    using Suc.hyps(1)[OF d ij Suc.prems(2) that] .
  show ?case
  proof (cases "km ! j")
    case False
    have "?S (i, j, km) (i, Suc j, km)"
      using Suc.prems(1) jn Suc.prems(3) False by (rule skip_excluded_j)
    moreover have "rtranclp ?S (i, Suc j, km) (Suc i, Suc (Suc i), km')"
      using run False Suc.prems(3) by (intro rest) simp_all
    ultimately show ?thesis by (rule converse_rtranclp_into_rtranclp)
  next
    case kj: True
    show ?thesis
    proof (cases "within_cylinder r zw (bs ! i) (bs ! j)")
      case False
      have "?S (i, j, km) (i, Suc j, km)"
        using Suc.prems(1) jn Suc.prems(3) kj False by (rule skip_outside_gates)
      moreover have "bridge_inner line_nd img r zw dt bs i [Suc j..<length bs] km = Inr km'"
        using run kj False by (auto simp: within_cylinder_def split: if_splits)
      then have "rtranclp ?S (i, Suc j, km) (Suc i, Suc (Suc i), km')"
        using Suc.prems(3) by (intro rest)
      ultimately show ?thesis by (rule converse_rtranclp_into_rtranclp)
    next
      case gate: True
      then have g: "\<not> \<bar>blob_z (bs ! j) - blob_z (bs ! i)\<bar> > zw"
        "\<not> (blob_y (bs ! j) - blob_y (bs ! i))\<^sup>2 + (blob_x (bs ! j) - blob_x (bs ! i))\<^sup>2 > r\<^sup>2"
        by (simp_all add: within_cylinder_def)
      obtain m where mv: "bridge_min_val line_nd img (bs ! i) (bs ! j) = Inr m"
        using run kj g by (cases "bridge_min_val line_nd img (bs ! i) (bs ! j)") simp_all
      let ?avg = "(blob_intensity (bs ! i) + blob_intensity (bs ! j)) / 2"
      show ?thesis
      proof (cases "dip_exceeds m ?avg dt")
        case False
        have "?S (i, j, km) (i, Suc j, km)"
          using Suc.prems(1) jn Suc.prems(3) kj gate mv False by (rule keep_both)
        moreover have "bridge_inner line_nd img r zw dt bs i [Suc j..<length bs] km = Inr km'"
          using run kj g mv False by simp
        then have "rtranclp ?S (i, Suc j, km) (Suc i, Suc (Suc i), km')"
          using Suc.prems(3) by (intro rest)
        ultimately show ?thesis by (rule converse_rtranclp_into_rtranclp)
      next
        case dip: True
        show ?thesis
        proof (cases "blob_intensity (bs ! j) < blob_intensity (bs ! i)")
          case True
          have "?S (i, j, km) (i, Suc j, km[j := False])"
            using Suc.prems(1) jn Suc.prems(3) kj gate mv dip True by (rule drop_j_continue)
          moreover have "bridge_inner line_nd img r zw dt bs i [Suc j..<length bs] (km[j := False]) = Inr km'"
            using run kj g mv dip True by simp
          then have "rtranclp ?S (i, Suc j, km[j := False]) (Suc i, Suc (Suc i), km')"
            using Suc.prems(1,3) by (intro rest) simp_all
          ultimately show ?thesis by (rule converse_rtranclp_into_rtranclp)
        next
          case False
          then have le: "blob_intensity (bs ! i) \<le> blob_intensity (bs ! j)" by simp
          have "km' = km[i := False]"
            using run kj g mv dip False by simp
          moreover have "?S (i, j, km) (Suc i, Suc (Suc i), km[i := False])"
            using Suc.prems(1) jn Suc.prems(3) kj gate mv dip le by (rule drop_i_break)
          ultimately show ?thesis by blast
        qed
      qed
    qed
  qed
qed

lemma bridge_outer_run:
  assumes "bridge_outer line_nd img r zw dt bs [i..<length bs] km = Inr km'"
  shows "rtranclp (bridge_spec_step line_nd img r zw dt bs) (i, Suc i, km)
           (max i (length bs), Suc (max i (length bs)), km')"
  using assms
proof (induction "length bs - i" arbitrary: i km)
  case 0
  then have "length bs \<le> i" by simp
  then show ?case using "0.prems" by (simp add: max_def)
next
  case (Suc d)
  let ?S = "bridge_spec_step line_nd img r zw dt bs"
  have "i < length bs" using Suc.hyps(2) by simp
  then have upt: "[i..<length bs] = i # [Suc i..<length bs]"
    by (simp add: upt_conv_Cons)
  have d: "d = length bs - Suc i" using Suc.hyps(2) by simp
  have mx: "max i (length bs) = max (Suc i) (length bs)"
    using \<open>i < length bs\<close> by simp
  note run = Suc.prems[unfolded upt]
  show ?case
  proof (cases "km ! i")
    case False
    have "?S (i, Suc i, km) (Suc i, Suc (Suc i), km)"
      using \<open>i < length bs\<close> False by (rule skip_excluded_i)
    moreover have "rtranclp ?S (Suc i, Suc (Suc i), km)
                     (max (Suc i) (length bs), Suc (max (Suc i) (length bs)), km')"
      using run False by (intro Suc.hyps(1)[OF d]) simp
    ultimately show ?thesis unfolding mx by (rule converse_rtranclp_into_rtranclp)
  next
    case True
    obtain km1 where in1: "bridge_inner line_nd img r zw dt bs i [Suc i..<length bs] km = Inr km1"
      and out1: "bridge_outer line_nd img r zw dt bs [Suc i..<length bs] km1 = Inr km'"
      using run True
      by (cases "bridge_inner line_nd img r zw dt bs i [Suc i..<length bs] km") simp_all
    have "rtranclp ?S (i, Suc i, km) (Suc i, Suc (Suc i), km1)"
      using \<open>i < length bs\<close> True in1 by (intro bridge_inner_run) simp_all
    moreover have "rtranclp ?S (Suc i, Suc (Suc i), km1)
                     (max (Suc i) (length bs), Suc (max (Suc i) (length bs)), km')"
      using out1 by (rule Suc.hyps(1)[OF d])
    ultimately show ?thesis unfolding mx by (rule rtranclp_trans)
  qed
qed

lemma bridge_spec_final:
  "\<not> bridge_spec_step line_nd img r zw dt bs (length bs, j, km) t"
  by (auto elim: bridge_spec_step.cases)

lemma bridge_spec_run_unique:
  assumes "rtranclp (bridge_spec_step line_nd img r zw dt bs) s (length bs, j, km)"
    and "rtranclp (bridge_spec_step line_nd img r zw dt bs) s (length bs, j', km')"
  shows "km' = km \<and> j' = j"
  using assms
proof (induction rule: converse_rtranclp_induct)
  case base
  then show ?case
    by (auto elim: converse_rtranclpE simp: bridge_spec_final)
next
  case (step s s1)
  from step.prems show ?case
  proof (cases rule: converse_rtranclpE)
    case base
    then show ?thesis using step.hyps(1) by (simp add: bridge_spec_final)
  next
    case (step s2)
    then have "s2 = s1"
      using step.hyps(1) bridge_spec_step_deterministic by blast
    then show ?thesis using step step.IH by simp
  qed
qed

lemma line_along_x:
  "line_nd_linspace (5, 50, 50) (5, 50, 70) = map (\<lambda>k. (5, 50, 50 + int k)) [0..<20]"
  by (simp add: line_nd_linspace_def)

lemma line_along_y:
  "line_nd_linspace (5, 50, 50) (5, 75, 50) = map (\<lambda>k. (5, 50 + int k, 50)) [0..<25]"
  by (simp add: line_nd_linspace_def)

lemma min_val_along_x:
  "bridge_min_val line_nd_linspace flat_img (mk_blob 5 50 50 s v) (mk_blob 5 50 70 s' v') = Inr 190"
proof -
  have "sample_line flat_img (map (\<lambda>k. (5, 50, 50 + int k)) [0..<20]) =
        Inr (replicate (length (map (\<lambda>k. (5::int, 50::int, 50 + int k)) [0..<20])) 190)"
    by (rule sample_line_const) (auto simp: voxel_at_flat_img)
  then show ?thesis
    by (simp add: bridge_min_val_def mk_blob_def line_along_x np_min_replicate)
qed

lemma min_val_along_y:
  "bridge_min_val line_nd_linspace flat_img (mk_blob 5 50 50 s v) (mk_blob 5 75 50 s' v') = Inr 190"
proof -
  have "sample_line flat_img (map (\<lambda>k. (5, 50 + int k, 50)) [0..<25]) =
        Inr (replicate (length (map (\<lambda>k. (5::int, 50 + int k, 50::int)) [0..<25])) 190)"
    by (rule sample_line_const) (auto simp: voxel_at_flat_img)
  then show ?thesis
    by (simp add: bridge_min_val_def mk_blob_def line_along_y np_min_replicate)
qed

lemma tied_triple_sorted: "sort_by_intensity argsort_stable tied_triple = tied_triple"
  by (simp add: sort_by_intensity_def tied_triple_def argsort_stable_def mk_blob_def upt_conv_Cons)

lemma falling_triple_sorted: "sort_by_intensity argsort_stable falling_triple = falling_triple"
  by (simp add: sort_by_intensity_def falling_triple_def argsort_stable_def mk_blob_def upt_conv_Cons)

lemma tied_triple_break:
  "suppress_blobs_by_bridge_intensity line_nd_linspace argsort_stable tied_triple flat_img 30 4 (1/2) =
     Inr [mk_blob 5 50 70 2 200, mk_blob 5 75 50 2 190]"
  apply (simp add: suppress_blobs_by_bridge_intensity_def tied_triple_sorted)
  apply (simp add: tied_triple_def select_mask_def upt_conv_Cons min_val_along_x min_val_along_y)
  apply (simp add: mk_blob_def dip_exceeds_def np_div_def)
  done

lemma falling_triple_continue:
  "suppress_blobs_by_bridge_intensity line_nd_linspace argsort_stable falling_triple flat_img 30 4 (1/2) =
     Inr [mk_blob 5 50 50 2 200]"
  apply (simp add: suppress_blobs_by_bridge_intensity_def falling_triple_sorted)
  apply (simp add: falling_triple_def select_mask_def upt_conv_Cons min_val_along_x min_val_along_y)
  apply (simp add: mk_blob_def dip_exceeds_def np_div_def)
  done

text \<open>
  Claim C4.  Every list that \<open>suppress_blobs_by_bridge_intensity\<close> returns is obtained
  by the pair rule \<open>bridge_spec_step\<close> on the intensity-sorted records: there is a
  complete scan from the state \<open>(0, 1, all kept)\<close> to a state whose outer index is the
  number of records, every complete scan ends with the same kept marks, and the returned
  list is the sorted records with these marks.  Each step of the scan treats one pair
  \<open>(i, j)\<close> with \<open>i < j\<close>: if both are still kept and inside the \<open>z_window\<close> and
  \<open>radius_xy\<close> gates and \<open>dip_ratio\<close> exceeds \<open>dip_threshold\<close>, then either \<open>j\<close>
  has the lower intensity, \<open>j\<close> is marked excluded and the scan of \<open>i\<close> goes on with
  \<open>j + 1\<close>, or \<open>i\<close> is marked excluded and no later \<open>j\<close> is compared with \<open>i\<close>.
\<close>

theorem C4_bridge_scan_follows_pair_rule:
  assumes "blobs \<noteq> []"
    and "suppress_blobs_by_bridge_intensity line_nd argsort blobs img radius_xy z_window
           dip_threshold = Inr out"
  shows "let blobs_sorted = sort_by_intensity argsort blobs; n = length blobs_sorted;
             step = bridge_spec_step line_nd img radius_xy z_window dip_threshold blobs_sorted
         in \<exists>keep. rtranclp step (0, 1, replicate n True) (n, Suc n, keep) \<and>
                   (\<forall>j keep'. rtranclp step (0, 1, replicate n True) (n, j, keep') \<longrightarrow>
                               keep' = keep) \<and>
                   out = select_mask blobs_sorted keep"
proof -
  define bs where "bs = sort_by_intensity argsort blobs"
  obtain km where km: "bridge_outer line_nd img radius_xy z_window dip_threshold bs
                         [0..<length bs] (replicate (length bs) True) = Inr km"
    and out: "out = select_mask bs km"
    using assms
    by (auto simp: suppress_blobs_by_bridge_intensity_def Let_def bs_def split: sum.splits)
  have run: "rtranclp (bridge_spec_step line_nd img radius_xy z_window dip_threshold bs)
          (0, 1, replicate (length bs) True) (length bs, Suc (length bs), km)"
    using bridge_outer_run[OF km] by simp
  have "keep' = km"
    if "rtranclp (bridge_spec_step line_nd img radius_xy z_window dip_threshold bs)
          (0, 1, replicate (length bs) True) (length bs, j, keep')" for j keep'
    using bridge_spec_run_unique[OF run that] by simp
  with run out show ?thesis
    unfolding Let_def bs_def[symmetric] by blast
qed

theorem C4_bridge_scan_follows_pair_rule_witness:
  "suppress_blobs_by_bridge_intensity line_nd_linspace argsort_stable tied_triple flat_img 30 4 (1/2) =
     Inr [mk_blob 5 50 70 2 200, mk_blob 5 75 50 2 190] \<and>
   (\<exists>keep. rtranclp (bridge_spec_step line_nd_linspace flat_img 30 4 (1/2) tied_triple)
             (0, 1, replicate 3 True) (3, Suc 3, keep) \<and>
           [mk_blob 5 50 70 2 200, mk_blob 5 75 50 2 190] = select_mask tied_triple keep) \<and>
   suppress_blobs_by_bridge_intensity line_nd_linspace argsort_stable falling_triple flat_img 30 4 (1/2) =
     Inr [mk_blob 5 50 50 2 200] \<and>
   (\<exists>keep. rtranclp (bridge_spec_step line_nd_linspace flat_img 30 4 (1/2) falling_triple)
             (0, 1, replicate 3 True) (3, Suc 3, keep) \<and>
           [mk_blob 5 50 50 2 200] = select_mask falling_triple keep)"
proof -
  have ne: "tied_triple \<noteq> []" "falling_triple \<noteq> []"
    by (simp_all add: tied_triple_def falling_triple_def)
  have len: "length tied_triple = 3" "length falling_triple = 3"
    by (simp_all add: tied_triple_def falling_triple_def)
  show ?thesis
    using C4_bridge_scan_follows_pair_rule[OF ne(1) tied_triple_break]
      C4_bridge_scan_follows_pair_rule[OF ne(2) falling_triple_continue]
      tied_triple_break falling_triple_continue
    unfolding Let_def tied_triple_sorted falling_triple_sorted len
    by (simp only: One_nat_def numeral_3_eq_3) blast
qed

text \<open>
  Claim C5.  Two blobs 30 px apart in XY, the weaker one \<open>b\<close>, with average peak
  intensity 195 and a connecting line whose minimum sampled intensity is 190.  With
  \<open>radius_xy = 20\<close> the pair is outside the gate of the proximity suppressor, which keeps
  both.  The pair qualifies for the bridge suppressor (its Z distance is within
  \<open>z_window\<close> and its 30 px within the bridge suppressor's \<open>radius_xy\<close>), and with
  \<open>dip_threshold = 0.5\<close> the bridge suppressor drops the weaker blob: it returns the
  stronger blob alone.
\<close>

theorem C5_bridge_drops_weaker_blob:
  assumes spec: "np_argsort_spec argsort"
    and order: "blobs = [a, b] \<or> blobs = [b, a]"
    and weaker: "blob_intensity b < blob_intensity a"
    and avg: "(blob_intensity a + blob_intensity b) / 2 = 195"
    and dist: "(blob_y b - blob_y a)\<^sup>2 + (blob_x b - blob_x a)\<^sup>2 = 30\<^sup>2"
    and zgate: "\<bar>blob_z b - blob_z a\<bar> \<le> z_window"
    and xygate: "30 \<le> radius_xy"
    and minv: "bridge_min_val line_nd img a b = Inr 190"
  shows "suppress_close_blobs_by_intensity argsort blobs 20 prox_z_window = [a, b] \<and>
         suppress_blobs_by_bridge_intensity line_nd argsort blobs img radius_xy z_window (1 / 2) =
           Inr [a]"
proof -
  have srt: "sort_by_intensity argsort blobs = [a, b]"
    using order sort_by_intensity_two[OF spec weaker] by auto
  have ne: "blobs \<noteq> []" using order by auto
  have far: "\<not> within_cylinder 20 prox_z_window a b"
    using dist by (simp add: within_cylinder_def)
  have "suppress_close_blobs_by_intensity argsort blobs 20 prox_z_window = sort_by_intensity argsort blobs"
  proof (rule suppress_close_no_pairs[OF _ ne], intro allI impI)
    fix i k assume "i < k \<and> k < length (sort_by_intensity argsort blobs)"
    then have "i = 0" "k = 1" unfolding srt by auto
    then show "\<not> within_cylinder 20 prox_z_window (sort_by_intensity argsort blobs ! i)
                 (sort_by_intensity argsort blobs ! k)"
      unfolding srt using far by simp
  qed
  then have part1: "suppress_close_blobs_by_intensity argsort blobs 20 prox_z_window = [a, b]"
    by (simp add: srt)
  have "(30::real)\<^sup>2 \<le> radius_xy\<^sup>2"
    using xygate by (intro power_mono) simp_all
  then have g: "(blob_y b - blob_y a)\<^sup>2 + (blob_x b - blob_x a)\<^sup>2 \<le> radius_xy\<^sup>2"
    using dist by simp
  have de: "dip_exceeds 190 ((blob_intensity a + blob_intensity b) / 2) (1 / 2)"
    by (simp add: avg dip_exceeds_def np_div_def)
  have "bridge_outer line_nd img radius_xy z_window (1 / 2) [a, b] [0..<2] [True, True] =
        Inr [True, False]"
    by (rule bridge_pair_inside[OF zgate g minv de weaker])
  then have part2: "suppress_blobs_by_bridge_intensity line_nd argsort blobs img radius_xy z_window (1 / 2) =
           Inr [a]"
    using ne
    by (simp add: suppress_blobs_by_bridge_intensity_def srt select_mask_def numeral_2_eq_2)
  show ?thesis using part1 part2 by simp
qed

theorem C5_bridge_drops_weaker_blob_witness:
  "np_argsort_spec argsort_stable \<and>
   suppress_close_blobs_by_intensity argsort_stable
     [mk_blob 5 50 80 2 190, mk_blob 5 50 50 2 200] 20 2 =
     [mk_blob 5 50 50 2 200, mk_blob 5 50 80 2 190] \<and>
   suppress_blobs_by_bridge_intensity line_nd_linspace argsort_stable
     [mk_blob 5 50 80 2 190, mk_blob 5 50 50 2 200] flat_img 30 4 (1 / 2) =
     Inr [mk_blob 5 50 50 2 200]"
  using C5_bridge_drops_weaker_blob[OF np_argsort_spec_stable,
      of "[mk_blob 5 50 80 2 190, mk_blob 5 50 50 2 200]"
      "mk_blob 5 50 50 2 200" "mk_blob 5 50 80 2 190" 4 30 line_nd_linspace flat_img 2]
    far_pair_min_val np_argsort_spec_stable
  by (simp add: mk_blob_def)

section \<open>MaskBoundaryFilter\<close>

lemma np_round_zero [simp]: "np_round 0 = 0"
  using np_round_of_int[of 0] by simp

lemma np_round_one [simp]: "np_round 1 = 1"
  using np_round_of_int[of 1] by simp

lemma shape_erode_once [simp]:
  "shape0 (erode_once m) = shape0 m" "shape1 (erode_once m) = shape1 m"
  "shape2 (erode_once m) = shape2 m"
  by (simp_all add: erode_once_def)

lemma shape_funpow_erode_once [simp]:
  "shape0 ((erode_once ^^ k) m) = shape0 m" "shape1 ((erode_once ^^ k) m) = shape1 m"
  "shape2 ((erode_once ^^ k) m) = shape2 m"
  by (induction k) simp_all

lemma erosion_keeps_shape_erode_times: "erosion_keeps_shape erode_times"
  by (simp add: erosion_keeps_shape_def erode_times_def)

text \<open>
  Claim C7.  With an erosion that keeps the shape of the mask,
  \<open>filter_blobs_outside_eroded_mask\<close> returns the eroded mask, and a blob is in the
  returned list exactly when it is an input blob whose rounded voxel lies inside the
  mask's bounds on every axis and is not in the ring \<open>Mask AND NOT eroded\<close>.  So a blob
  whose voxel is in the eroded mask is kept, a blob in the ring is dropped, and a blob
  outside the bounds is dropped.
\<close>

theorem C7_mask_boundary_filter:
  assumes "erosion_keeps_shape binary_erosion"
  shows
    "let result = filter_blobs_outside_eroded_mask binary_erosion blobs original_mask erosion_iterations;
         eroded = binary_erosion original_mask erosion_iterations;
         z = np_round (blob_z b); y = np_round (blob_y b); x = np_round (blob_x b);
         inside = (0 \<le> z \<and> z < int (shape0 original_mask) \<and>
                   0 \<le> y \<and> y < int (shape1 original_mask) \<and>
                   0 \<le> x \<and> x < int (shape2 original_mask));
         ring = (voxel original_mask (nat z) (nat y) (nat x) \<and> \<not> voxel eroded (nat z) (nat y) (nat x))
     in snd result = eroded \<and>
        (b \<in> set (fst result) \<longleftrightarrow> b \<in> set blobs \<and> inside \<and> \<not> ring) \<and>
        (b \<in> set blobs \<and> inside \<and> voxel eroded (nat z) (nat y) (nat x) \<longrightarrow> b \<in> set (fst result)) \<and>
        (inside \<and> ring \<longrightarrow> b \<notin> set (fst result)) \<and>
        (\<not> inside \<longrightarrow> b \<notin> set (fst result))"
proof -
  have sh: "shape0 (binary_erosion original_mask erosion_iterations) = shape0 original_mask"
    "shape1 (binary_erosion original_mask erosion_iterations) = shape1 original_mask"
    "shape2 (binary_erosion original_mask erosion_iterations) = shape2 original_mask"
    using assms by (simp_all add: erosion_keeps_shape_def)
  show ?thesis
    by (auto simp: filter_blobs_outside_eroded_mask_def eroded_mask_keeps_def
        mask_difference_def Let_def sh)
qed

lemma full_mask_eroded_centre: "voxel (erode_times full_mask 1) 2 2 2"
  by (simp add: erode_times_def erode_once_def full_mask_def)

lemma full_mask_eroded_face: "\<not> voxel (erode_times full_mask 1) 0 2 2"
  by (simp add: erode_times_def erode_once_def full_mask_def)

theorem C7_mask_boundary_filter_witness:
  "erosion_keeps_shape erode_times \<and>
   snd (filter_blobs_outside_eroded_mask erode_times
          [mk_blob 2 2 2 1 10, mk_blob 0 2 2 1 10, mk_blob 7 2 2 1 10] full_mask 1) =
     erode_times full_mask 1 \<and>
   mk_blob 2 2 2 1 10 \<in> set (fst (filter_blobs_outside_eroded_mask erode_times
          [mk_blob 2 2 2 1 10, mk_blob 0 2 2 1 10, mk_blob 7 2 2 1 10] full_mask 1)) \<and>
   mk_blob 0 2 2 1 10 \<notin> set (fst (filter_blobs_outside_eroded_mask erode_times
          [mk_blob 2 2 2 1 10, mk_blob 0 2 2 1 10, mk_blob 7 2 2 1 10] full_mask 1)) \<and>
   mk_blob 7 2 2 1 10 \<notin> set (fst (filter_blobs_outside_eroded_mask erode_times
          [mk_blob 2 2 2 1 10, mk_blob 0 2 2 1 10, mk_blob 7 2 2 1 10] full_mask 1))"
proof -
  let ?bs = "[mk_blob 2 2 2 1 10, mk_blob 0 2 2 1 10, mk_blob 7 2 2 1 10]"
  have sh: "shape0 full_mask = 5" "shape1 full_mask = 5" "shape2 full_mask = 5"
    "voxel full_mask = (\<lambda>z y x. True)"
    by (simp_all add: full_mask_def)
  have a: "mk_blob 2 2 2 1 10 \<in> set (fst (filter_blobs_outside_eroded_mask erode_times ?bs full_mask 1))"
    and s: "snd (filter_blobs_outside_eroded_mask erode_times ?bs full_mask 1) = erode_times full_mask 1"
    using C7_mask_boundary_filter[OF erosion_keeps_shape_erode_times, of ?bs full_mask 1 "mk_blob 2 2 2 1 10"]
      full_mask_eroded_centre
    by (simp_all add: Let_def sh) (simp_all add: mk_blob_def)
  have b: "mk_blob 0 2 2 1 10 \<notin> set (fst (filter_blobs_outside_eroded_mask erode_times ?bs full_mask 1))"
    using C7_mask_boundary_filter[OF erosion_keeps_shape_erode_times, of ?bs full_mask 1 "mk_blob 0 2 2 1 10"]
      full_mask_eroded_face
    by (simp add: Let_def sh) (simp add: mk_blob_def)
  have c: "mk_blob 7 2 2 1 10 \<notin> set (fst (filter_blobs_outside_eroded_mask erode_times ?bs full_mask 1))"
    using C7_mask_boundary_filter[OF erosion_keeps_shape_erode_times, of ?bs full_mask 1 "mk_blob 7 2 2 1 10"]
    by (simp add: Let_def sh) (simp add: mk_blob_def)
  show ?thesis
    using a b c s erosion_keeps_shape_erode_times by simp
qed

section \<open>Every stage keeps a record or drops it\<close>

text \<open>
  Claim C9.  Every record returned by a suppression or filter stage (proximity, bridge,
  local contrast, sharpness, mask boundary) is one of the input records, all five
  fields included: a stage keeps a record as it is or drops it.
\<close>

theorem C9_stages_keep_or_drop:
  assumes "np_argsort_spec argsort"
  shows "set (suppress_close_blobs_by_intensity argsort blobs radius_xy z_window) \<subseteq> set blobs \<and>
         (\<forall>out. suppress_blobs_by_bridge_intensity line_nd argsort blobs img radius_xy z_window
                   dip_threshold = Inr out \<longrightarrow> set out \<subseteq> set blobs) \<and>
         set (filter_blobs_by_local_intensity img blobs region_size ratio_threshold) \<subseteq> set blobs \<and>
         set (filter_blobs_by_sharpness blobs img drop_factor) \<subseteq> set blobs \<and>
         set (fst (filter_blobs_outside_eroded_mask binary_erosion blobs original_mask
                     erosion_iterations)) \<subseteq> set blobs"
proof -
  have "set (fst (filter_blobs_outside_eroded_mask binary_erosion blobs original_mask
                     erosion_iterations)) \<subseteq> set blobs"
    by (simp add: filter_blobs_outside_eroded_mask_def Let_def)
  moreover have "set (filter_blobs_by_local_intensity img blobs region_size ratio_threshold) \<subseteq> set blobs"
    by (simp add: filter_blobs_by_local_intensity_def)
  moreover have "set (filter_blobs_by_sharpness blobs img drop_factor) \<subseteq> set blobs"
    by (simp add: filter_blobs_by_sharpness_def)
  ultimately show ?thesis
    using set_suppress_close[OF assms] set_suppress_bridge[OF assms] by blast
qed

theorem C9_stages_keep_or_drop_witness:
  "np_argsort_spec argsort_stable \<and>
   suppress_blobs_by_bridge_intensity line_nd_linspace argsort_stable far_pair flat_img 30 4 (1 / 2) =
     Inr [mk_blob 5 50 50 2 200] \<and>
   set [mk_blob 5 50 50 2 200] \<subseteq> set far_pair \<and>
   set (suppress_close_blobs_by_intensity argsort_stable far_pair 30 4) \<subseteq> set far_pair \<and>
   set (filter_blobs_by_local_intensity flat_img far_pair 10 2) \<subseteq> set far_pair \<and>
   set (filter_blobs_by_sharpness far_pair flat_img (14 / 10)) \<subseteq> set far_pair \<and>
   set (fst (filter_blobs_outside_eroded_mask erode_times far_pair full_mask 1)) \<subseteq> set far_pair"
  using C9_stages_keep_or_drop[OF np_argsort_spec_stable, where blobs = far_pair
      and line_nd = line_nd_linspace and img = flat_img and radius_xy = 30 and z_window = 4
      and dip_threshold = "1 / 2" and region_size = 10 and ratio_threshold = 2
      and drop_factor = "14 / 10" and binary_erosion = erode_times and original_mask = full_mask
      and erosion_iterations = 1]
    far_pair_dropped np_argsort_spec_stable
  by blast

section \<open>Detector: a volume whose maximum is zero\<close>

lemma np_amax_eq_Max: "vs \<noteq> [] \<Longrightarrow> np_amax vs = Max (set vs)"
proof (cases vs)
  case Nil
  assume "vs \<noteq> []"
  with Nil show ?thesis by simp
next
  case (Cons a list)
  show ?thesis
    unfolding Cons np_amax_def by (simp only: list.sel Max.set_eq_fold)
qed

lemma np_div_zero_not_finite: "\<not> is_finite (np_div a 0)"
  by (simp add: np_div_def)

lemma percentile_linear_zeros:
  assumes "\<forall>u \<in> set vs. u = 0" "vs \<noteq> []" "0 \<le> q" "q \<le> 100"
  shows "percentile_linear vs q = 0"
proof -
  let ?s = "sort vs"
  let ?h = "q / 100 * real (length ?s - 1)"
  have z: "\<forall>u \<in> set ?s. u = 0" using assms(1) by simp
  have n: "0 < length ?s" using assms(2) by simp
  have "q / 100 \<le> 1" using assms(4) by simp
  then have "?h \<le> 1 * real (length ?s - 1)"
    by (rule mult_right_mono) simp
  then have "?h \<le> real (length ?s - 1)" by simp
  then have "\<lfloor>?h\<rfloor> \<le> int (length ?s - 1)" by linarith
  then have lo: "nat \<lfloor>?h\<rfloor> < length ?s" using n by linarith
  have hi: "min (nat \<lfloor>?h\<rfloor> + 1) (length ?s - 1) < length ?s" using n by linarith
  have "?s ! nat \<lfloor>?h\<rfloor> = 0" "?s ! min (nat \<lfloor>?h\<rfloor> + 1) (length ?s - 1) = 0"
    using z lo hi nth_mem by blast+
  then show ?thesis
    by (simp add: percentile_linear_def Let_def)
qed

text \<open>
  Claim C2, as the code has it.  On a non-empty volume whose global maximum is zero the
  threshold resolution of \<open>detect_blobs\<close> does not fail: in percentile mode (with a
  percentile in range) and in absolute mode alike it returns a threshold that is not
  finite, and on an all-zero volume in percentile mode that threshold is \<open>nan\<close>.
\<close>

theorem C2_zero_maximum_gives_nonfinite_threshold:
  assumes "flatten img \<noteq> []" and "Max (set (flatten img)) = 0"
  shows "(0 \<le> q \<and> q \<le> 100 \<longrightarrow>
            (\<exists>t. detect_blobs_threshold img ''percentile'' q = Inr t \<and> \<not> is_finite t)) \<and>
         (\<exists>t. detect_blobs_threshold img ''absolute'' v = Inr t \<and> \<not> is_finite t) \<and>
         (0 \<le> q \<and> q \<le> 100 \<and> (\<forall>u \<in> set (flatten img). u = 0) \<longrightarrow>
            detect_blobs_threshold img ''percentile'' q = Inr NaN)"
proof -
  have m: "np_amax (flatten img) = 0"
    using assms by (simp add: np_amax_eq_Max)
  show ?thesis
    using assms(1) m
    by (auto simp: detect_blobs_threshold_def Let_def np_div_zero_not_finite
        percentile_linear_zeros) (simp add: np_div_def)
qed

lemma flatten_zero_img: "flatten zero_img = [0, 0, 0, 0, 0, 0, 0, 0]"
  by (simp add: flatten_def cube_values_def region_values_def zero_img_def upt_conv_Cons)

text \<open>
  Claim C2 as stated fails: on an all-zero volume with \<open>threshold_mode = percentile\<close>
  the threshold resolution returns \<open>nan\<close> instead of failing.
\<close>

theorem C2_all_zero_volume_returns_nan:
  "Max (set (flatten zero_img)) = 0 \<and>
   detect_blobs_threshold zero_img ''percentile'' (995 / 10) = Inr NaN"
proof -
  have "percentile_linear (flatten zero_img) (995 / 10) = 0"
    by (rule percentile_linear_zeros) (simp_all add: flatten_zero_img)
  then show ?thesis
    by (simp add: detect_blobs_threshold_def Let_def flatten_zero_img np_amax_def np_div_def)
qed

theorem C2_zero_maximum_gives_nonfinite_threshold_witness:
  "flatten zero_img \<noteq> [] \<and> Max (set (flatten zero_img)) = 0 \<and>
   (0::real) \<le> 995 / 10 \<and> (995::real) / 10 \<le> 100 \<and>
   flatten zero_img = [0, 0, 0, 0, 0, 0, 0, 0] \<and>
   (\<exists>t. detect_blobs_threshold zero_img ''percentile'' (995 / 10) = Inr t \<and> \<not> is_finite t) \<and>
   (\<exists>t. detect_blobs_threshold zero_img ''absolute'' 5 = Inr t \<and> \<not> is_finite t) \<and>
   detect_blobs_threshold zero_img ''percentile'' (995 / 10) = Inr NaN"
proof -
  have h1: "flatten zero_img \<noteq> []" and h2: "Max (set (flatten zero_img)) = 0"
    and h3: "\<forall>u \<in> set (flatten zero_img). u = 0"
    by (simp_all add: flatten_zero_img)
  show ?thesis
    using C2_zero_maximum_gives_nonfinite_threshold[OF h1 h2, of "995 / 10" 5] h1 h2 h3
      flatten_zero_img
    by simp
qed

section \<open>Square regions and their means\<close>

lemma py_slice_inside:
  "0 \<le> a \<Longrightarrow> 0 \<le> b \<Longrightarrow> b \<le> int n \<Longrightarrow> py_slice n a b = [nat a ..< nat b]"
  by (auto simp: py_slice_def Let_def min_def max_def)

lemma sum_list_upt_int:
  fixes f :: "nat \<Rightarrow> real"
  assumes "0 \<le> a"
  shows "sum_list (map f [nat a ..< nat b]) = (\<Sum>i = a..<b. f (nat i))"
proof -
  have "sum_list (map f [nat a ..< nat b]) = sum f {nat a ..< nat b}"
    by (simp add: interv_sum_list_conv_sum_set_nat)
  also have "\<dots> = (\<Sum>i = a..<b. f (nat i))"
    by (rule sum.reindex_bij_witness[where i = nat and j = int]) (use assms in auto)
  finally show ?thesis .
qed

lemma sum_list_region_values:
  "sum_list (region_values img z ys xs) =
     sum_list (map (\<lambda>y. sum_list (map (\<lambda>x. voxel img z y x) xs)) ys)"
  unfolding region_values_def by (induction ys) simp_all

lemma length_region_values:
  "length (region_values img z ys xs) = length ys * length xs"
  by (induction ys) (simp_all add: region_values_def)

lemma region_sum:
  assumes "0 \<le> a" "0 \<le> b" "b \<le> int h" "0 \<le> c" "0 \<le> d" "d \<le> int w"
  shows "sum_list (region_values img z (py_slice h a b) (py_slice w c d)) =
         (\<Sum>i = a..<b. \<Sum>j = c..<d. voxel img z (nat i) (nat j))"
  using assms
  by (simp add: py_slice_inside sum_list_region_values sum_list_upt_int)

lemma region_length:
  assumes "0 \<le> a" "a \<le> b" "b \<le> int h" "0 \<le> c" "c \<le> d" "d \<le> int w"
  shows "length (region_values img z (py_slice h a b) (py_slice w c d)) = nat (b - a) * nat (d - c)"
  using assms
  by (simp add: py_slice_inside length_region_values nat_diff_distrib)

lemma region_mean:
  assumes "0 \<le> r" "r \<le> y" "y < int h - r" "r \<le> x" "x < int w - r"
  shows "np_mean (region_values img z (py_slice h (y - r) (y + r + 1)) (py_slice w (x - r) (x + r + 1))) =
         (\<Sum>i = y - r..y + r. \<Sum>j = x - r..x + r. voxel img z (nat i) (nat j)) / (2 * real_of_int r + 1)\<^sup>2"
    and "region_values img z (py_slice h (y - r) (y + r + 1)) (py_slice w (x - r) (x + r + 1)) \<noteq> []"
proof -
  let ?reg = "region_values img z (py_slice h (y - r) (y + r + 1)) (py_slice w (x - r) (x + r + 1))"
  have s: "sum_list ?reg = (\<Sum>i = y - r..<y + r + 1. \<Sum>j = x - r..<x + r + 1. voxel img z (nat i) (nat j))"
    using assms by (intro region_sum) simp_all
  have e1: "{y - r..<y + r + 1} = {y - r..y + r}" and e2: "{x - r..<x + r + 1} = {x - r..x + r}"
    by auto
  have l: "length ?reg = nat (2 * r + 1) * nat (2 * r + 1)"
    using assms region_length[of "y - r" "y + r + 1" h "x - r" "x + r + 1" w img z] by simp
  have "real (length ?reg) = (2 * real_of_int r + 1)\<^sup>2"
    using assms(1) unfolding l by (simp add: power2_eq_square)
  then show "np_mean ?reg =
         (\<Sum>i = y - r..y + r. \<Sum>j = x - r..x + r. voxel img z (nat i) (nat j)) / (2 * real_of_int r + 1)\<^sup>2"
    by (simp add: np_mean_def s e1 e2)
  have "0 < length ?reg" using assms(1) unfolding l by simp
  then show "?reg \<noteq> []" by auto
qed

section \<open>LocalContrastFilter\<close>

lemma local_intensity_keeps_outside:
  assumes "np_round (blob_y b) - region_size < 0 \<or>
           int (shape1 img) - 1 < np_round (blob_y b) + region_size \<or>
           np_round (blob_x b) - region_size < 0 \<or>
           int (shape2 img) - 1 < np_round (blob_x b) + region_size"
  shows "\<not> local_intensity_keeps img region_size ratio_threshold b"
  using assms by (auto simp: local_intensity_keeps_def Let_def)

lemma local_intensity_keeps_inside:
  assumes "0 \<le> region_size"
    and "region_size \<le> np_round (blob_y b)"
    and "np_round (blob_y b) + region_size \<le> int (shape1 img) - 1"
    and "region_size \<le> np_round (blob_x b)"
    and "np_round (blob_x b) + region_size \<le> int (shape2 img) - 1"
    and "0 \<le> np_round (blob_z b)" and "np_round (blob_z b) < int (shape0 img)"
  shows "local_intensity_keeps img region_size ratio_threshold b \<longleftrightarrow>
         blob_intensity b > ratio_threshold *
           ((\<Sum>i = np_round (blob_y b) - region_size..np_round (blob_y b) + region_size.
               \<Sum>j = np_round (blob_x b) - region_size..np_round (blob_x b) + region_size.
                 voxel img (nat (np_round (blob_z b))) (nat i) (nat j)) /
            (2 * real_of_int region_size + 1)\<^sup>2)"
proof -
  have y: "np_round (blob_y b) < int (shape1 img) - region_size"
    and x: "np_round (blob_x b) < int (shape2 img) - region_size"
    using assms(3,5) by simp_all
  show ?thesis
    using assms(1,2,4,6,7) y x
    by (simp add: local_intensity_keeps_def Let_def
        region_mean[OF assms(1,2) y assms(4) x])
qed

text \<open>
  Claim C6.  With a half-width \<open>region_size \<ge> 0\<close>:
  \<open>filter_blobs_by_local_intensity\<close> drops a blob whose square region around the
  rounded \<open>(y, x)\<close> reaches outside the XY bounds (a rounded coordinate exactly
  \<open>region_size\<close> from an edge is inside, one unit closer is outside); a blob whose
  region is inside, in a slice of the volume, is kept exactly when its intensity exceeds
  \<open>ratio_threshold\<close> times the mean of the \<open>(2 * region_size + 1)\<^sup>2\<close> voxels of the
  region.
\<close>

theorem C6_local_contrast_filter:
  assumes "0 \<le> region_size"
  shows
    "let z = np_round (blob_z b); y = np_round (blob_y b); x = np_round (blob_x b);
         out = filter_blobs_by_local_intensity img blobs region_size ratio_threshold
     in (y - region_size < 0 \<or> int (shape1 img) - 1 < y + region_size \<or>
         x - region_size < 0 \<or> int (shape2 img) - 1 < x + region_size \<longrightarrow> b \<notin> set out) \<and>
        (region_size \<le> y \<and> y + region_size \<le> int (shape1 img) - 1 \<and>
         region_size \<le> x \<and> x + region_size \<le> int (shape2 img) - 1 \<and>
         0 \<le> z \<and> z < int (shape0 img) \<longrightarrow>
           (b \<in> set out \<longleftrightarrow>
              b \<in> set blobs \<and>
              blob_intensity b > ratio_threshold *
                ((\<Sum>i = y - region_size..y + region_size. \<Sum>j = x - region_size..x + region_size.
                    voxel img (nat z) (nat i) (nat j)) /
                 (2 * real_of_int region_size + 1)\<^sup>2)))"
  unfolding Let_def filter_blobs_by_local_intensity_def set_filter mem_Collect_eq
  using local_intensity_keeps_outside[of b region_size img ratio_threshold]
    local_intensity_keeps_inside[OF assms, of b img ratio_threshold]
  by blast

lemma unit_img_sel [simp]:
  "shape0 unit_img = 1" "shape1 unit_img = 21" "shape2 unit_img = 30"
  "voxel unit_img z y x = 1"
  by (simp_all add: unit_img_def)

theorem C6_local_contrast_filter_witness:
  "(0::int) \<le> 10 \<and>
   mk_blob 0 10 15 2 3 \<in> set (filter_blobs_by_local_intensity unit_img
       [mk_blob 0 10 15 2 3, mk_blob 0 9 15 2 3] 10 2) \<and>
   mk_blob 0 9 15 2 3 \<notin> set (filter_blobs_by_local_intensity unit_img
       [mk_blob 0 10 15 2 3, mk_blob 0 9 15 2 3] 10 2)"
proof -
  let ?bs = "[mk_blob 0 10 15 2 3, mk_blob 0 9 15 2 3]"
  have r: "(0::int) \<le> 10" by simp
  have a: "mk_blob 0 10 15 2 3 \<in> set (filter_blobs_by_local_intensity unit_img ?bs 10 2)"
    using C6_local_contrast_filter[OF r, of "mk_blob 0 10 15 2 3" unit_img ?bs 2]
    by (simp add: Let_def mk_blob_def)
  have b: "mk_blob 0 9 15 2 3 \<notin> set (filter_blobs_by_local_intensity unit_img ?bs 10 2)"
    using C6_local_contrast_filter[OF r, of "mk_blob 0 9 15 2 3" unit_img ?bs 2]
    by (simp add: Let_def mk_blob_def)
  show ?thesis using a b by simp
qed

section \<open>Intensity measurement\<close>

lemma measure_intensity_border:
  assumes "np_round (cand_y c) < 1 \<or> int (shape1 img) - 1 \<le> np_round (cand_y c) \<or>
           np_round (cand_x c) < 1 \<or> int (shape2 img) - 1 \<le> np_round (cand_x c) \<or>
           np_round (cand_z c) < 0 \<or> int (shape0 img) \<le> np_round (cand_z c)"
  shows "measure_intensity img c = NaN"
  using assms by (auto simp: measure_intensity_def Let_def)

lemma measure_intensity_inside:
  assumes "\<not> (np_round (cand_y c) < 1 \<or> int (shape1 img) - 1 \<le> np_round (cand_y c) \<or>
           np_round (cand_x c) < 1 \<or> int (shape2 img) - 1 \<le> np_round (cand_x c) \<or>
           np_round (cand_z c) < 0 \<or> int (shape0 img) \<le> np_round (cand_z c))"
  shows "measure_intensity img c =
         Finite ((\<Sum>i = np_round (cand_y c) - 1..np_round (cand_y c) + 1.
                    \<Sum>j = np_round (cand_x c) - 1..np_round (cand_x c) + 1.
                      voxel img (nat (np_round (cand_z c))) (nat i) (nat j)) / 9)"
proof -
  have y: "1 \<le> np_round (cand_y c)" "np_round (cand_y c) < int (shape1 img) - 1"
    and x: "1 \<le> np_round (cand_x c)" "np_round (cand_x c) < int (shape2 img) - 1"
    and z: "0 \<le> np_round (cand_z c)" "np_round (cand_z c) < int (shape0 img)"
    using assms by simp_all
  have e: "np_round (cand_y c) + 2 = np_round (cand_y c) + 1 + 1"
    "np_round (cand_x c) + 2 = np_round (cand_x c) + 1 + 1"
    by simp_all
  have "np_mean (region_values img (nat (np_round (cand_z c)))
            (py_slice (shape1 img) (np_round (cand_y c) - 1) (np_round (cand_y c) + 1 + 1))
            (py_slice (shape2 img) (np_round (cand_x c) - 1) (np_round (cand_x c) + 1 + 1))) =
        (\<Sum>i = np_round (cand_y c) - 1..np_round (cand_y c) + 1.
           \<Sum>j = np_round (cand_x c) - 1..np_round (cand_x c) + 1.
             voxel img (nat (np_round (cand_z c))) (nat i) (nat j)) / (2 * real_of_int 1 + 1)\<^sup>2"
    by (rule region_mean(1)) (use y x in simp_all)
  then show ?thesis
    using y x z by (simp add: measure_intensity_def Let_def e)
qed

text \<open>
  Claim C10.  \<open>detect_blob_intensities\<close> returns one row per input blob, in input
  order, each the input row with an intensity appended: \<open>nan\<close> when the rounded
  \<open>(y, x)\<close> is within one voxel of an XY edge or the rounded \<open>z\<close> is outside
  \<open>[0, depth)\<close>, and the mean of the 3 x 3 XY patch otherwise.
\<close>

theorem C10_intensity_or_nan_sentinel:
  "let out = detect_blob_intensities img blobs
   in length out = length blobs \<and> map fst out = blobs \<and>
      (\<forall>k < length blobs.
         let z = np_round (cand_z (blobs ! k)); y = np_round (cand_y (blobs ! k));
             x = np_round (cand_x (blobs ! k))
         in snd (out ! k) =
              (if y < 1 \<or> int (shape1 img) - 1 \<le> y \<or> x < 1 \<or> int (shape2 img) - 1 \<le> x \<or>
                  z < 0 \<or> int (shape0 img) \<le> z
               then NaN
               else Finite ((\<Sum>i = y - 1..y + 1. \<Sum>j = x - 1..x + 1.
                               voxel img (nat z) (nat i) (nat j)) / 9)))"
proof -
  have sel: "snd (detect_blob_intensities img blobs ! k) = measure_intensity img (blobs ! k)"
    if "k < length blobs" for k
    using that by (simp add: detect_blob_intensities_def Let_def)
  have fst: "map fst (detect_blob_intensities img blobs) = blobs"
    by (simp add: detect_blob_intensities_def Let_def map_fst_zip)
  have len: "length (detect_blob_intensities img blobs) = length blobs"
    by (simp add: detect_blob_intensities_def Let_def)
  have val: "measure_intensity img c =
      (if np_round (cand_y c) < 1 \<or> int (shape1 img) - 1 \<le> np_round (cand_y c) \<or>
          np_round (cand_x c) < 1 \<or> int (shape2 img) - 1 \<le> np_round (cand_x c) \<or>
          np_round (cand_z c) < 0 \<or> int (shape0 img) \<le> np_round (cand_z c)
       then NaN
       else Finite ((\<Sum>i = np_round (cand_y c) - 1..np_round (cand_y c) + 1.
                       \<Sum>j = np_round (cand_x c) - 1..np_round (cand_x c) + 1.
                         voxel img (nat (np_round (cand_z c))) (nat i) (nat j)) / 9))" for c
    using measure_intensity_border[of c img] measure_intensity_inside[of c img]
    by (simp only: if_split) blast
  show ?thesis
    unfolding Let_def using sel fst len val by simp
qed

theorem C10_intensity_or_nan_sentinel_witness:
  "let out = detect_blob_intensities unit_img
               [mk_cand 0 10 15 2, mk_cand 0 0 15 2, mk_cand 3 10 15 2]
   in length out = 3 \<and>
      map fst out = [mk_cand 0 10 15 2, mk_cand 0 0 15 2, mk_cand 3 10 15 2] \<and>
      snd (out ! 0) = Finite 1 \<and> snd (out ! 1) = NaN \<and> snd (out ! 2) = NaN"
proof -
  let ?bs = "[mk_cand 0 10 15 2, mk_cand 0 0 15 2, mk_cand 3 10 15 2]"
  note t = C10_intensity_or_nan_sentinel[of unit_img ?bs, unfolded Let_def]
  have l: "length (detect_blob_intensities unit_img ?bs) = 3"
    and m: "map fst (detect_blob_intensities unit_img ?bs) = ?bs"
    using t by simp_all
  have a: "snd (detect_blob_intensities unit_img ?bs ! 0) = Finite 1"
    using t[THEN conjunct2, THEN conjunct2, rule_format, of 0]
    by (simp add: mk_cand_def)
  have b: "snd (detect_blob_intensities unit_img ?bs ! 1) = NaN"
    using t[THEN conjunct2, THEN conjunct2, rule_format, of 1]
    by (simp add: mk_cand_def)
  have c: "snd (detect_blob_intensities unit_img ?bs ! 2) = NaN"
    using t[THEN conjunct2, THEN conjunct2, rule_format, of 2]
    by (simp add: mk_cand_def)
  show ?thesis
    unfolding Let_def using l m a b c by simp
qed

end
